theory Spec2Isabelle
  imports Main "HOL-Library.Word" "HOL-Library.Sublist"
begin

section \<open>JavaScript strings and values\<close>

text \<open>
  A JavaScript string is a sequence of 16-bit code units; \<open>length\<close>, \<open>slice\<close>,
  \<open>trim\<close> and regular expressions without the \<open>u\<close> flag all work on code units.
  Literals of \<open>server.js\<close> that are plain ASCII are written with \<open>lit\<close>.
\<close>

type_synonym jschar = "16 word"
type_synonym jsstring = "jschar list"

definition lit :: "string \<Rightarrow> jsstring" where
  "lit s = map (\<lambda>c. of_nat (of_char c)) s"

text \<open>
  The values a handler can find in \<open>req.body\<close>: what \<open>express.json()\<close> produces
  (\<open>JSON.parse\<close>), and \<open>JUndefined\<close> for a missing body or key (\<open>req.body?.name\<close>).
  The handler does two things with such a value: it tests it with \<open>||\<close> and converts
  it with \<open>String\<close>. A number is therefore given by the text that \<open>String\<close> prints
  for it (\<open>0\<close> for both zeros; a parser produces no NaN); an object is the list of
  its own keys with their values.
\<close>

datatype jsval =
    JUndefined
  | JNull
  | JBool bool
  | JNum jsstring
  | JStr jsstring
  | JArr "jsval list"
  | JObj "(jsstring \<times> jsval) list"

datatype jserror =
    TypeError jsstring
  | Error jsstring
  | SendError jsstring

text \<open>Truthiness, as the operator \<open>||\<close> tests it.\<close>

fun truthy :: "jsval \<Rightarrow> bool" where
  "truthy JUndefined = False"
| "truthy JNull = False"
| "truthy (JBool b) = b"
| "truthy (JNum t) = (t \<noteq> lit ''0'')"
| "truthy (JStr s) = (s \<noteq> [])"
| "truthy (JArr _) = True"
| "truthy (JObj _) = True"

fun join_comma :: "jsstring list \<Rightarrow> jsstring" where
  "join_comma [] = []"
| "join_comma [s] = s"
| "join_comma (s # t # ss) = s @ 0x2C # join_comma (t # ss)"

fun sequence_results :: "(jserror + 'a) list \<Rightarrow> jserror + 'a list" where
  "sequence_results [] = Inr []"
| "sequence_results (r # rs) =
     (case r of
        Inl e \<Rightarrow> Inl e
      | Inr x \<Rightarrow> (case sequence_results rs of Inl e \<Rightarrow> Inl e | Inr xs \<Rightarrow> Inr (x # xs)))"

text \<open>
  The abstract operation ToString, which \<open>String(v)\<close> applies. For an object it goes
  through OrdinaryToPrimitive: the property \<open>toString\<close> is looked up and called when
  it is callable, then \<open>valueOf\<close>. No value of a parsed JSON text is callable, so an
  object with an own key \<open>toString\<close> hides \<open>Object.prototype.toString\<close>; the
  \<open>valueOf\<close> that remains returns the object itself or is again not callable, and
  the conversion throws a TypeError. An array is joined with commas, \<open>null\<close> and
  \<open>undefined\<close> elements giving the empty string.
\<close>

fun js_ToString :: "jsval \<Rightarrow> jserror + jsstring" where
  "js_ToString JUndefined = Inr (lit ''undefined'')"
| "js_ToString JNull = Inr (lit ''null'')"
| "js_ToString (JBool b) = Inr (if b then lit ''true'' else lit ''false'')"
| "js_ToString (JNum t) = Inr t"
| "js_ToString (JStr s) = Inr s"
| "js_ToString (JArr vs) =
     (case sequence_results
             (map (\<lambda>v. if v = JUndefined \<or> v = JNull then Inr [] else js_ToString v) vs) of
        Inl e \<Rightarrow> Inl e
      | Inr ss \<Rightarrow> Inr (join_comma ss))"
| "js_ToString (JObj kvs) =
     (if lit ''toString'' \<in> fst ` set kvs
      then Inl (TypeError (lit ''Cannot convert object to primitive value''))
      else Inr (lit ''[object Object]''))"

text \<open>The idiom \<open>String(str || "")\<close> of \<open>isEmail\<close>, \<open>sanitize\<close> and \<open>escapeHtml\<close>.\<close>

definition string_or_empty :: "jsval \<Rightarrow> jserror + jsstring" where
  "string_or_empty v = (if truthy v then js_ToString v else Inr [])"

section \<open>White space, trimming, slicing\<close>

text \<open>
  The code units that \<open>String.prototype.trim\<close> strips and that \<open>\s\<close> matches:
  WhiteSpace (TAB, VT, FF, SP, NBSP, ZWNBSP and the category Zs) and LineTerminator
  (LF, CR, LS, PS).
\<close>

definition js_space_units :: "jschar list" where
  "js_space_units =
     [0x09, 0x0A, 0x0B, 0x0C, 0x0D, 0x20, 0xA0, 0x1680,
      0x2000, 0x2001, 0x2002, 0x2003, 0x2004, 0x2005, 0x2006, 0x2007, 0x2008, 0x2009, 0x200A,
      0x2028, 0x2029, 0x202F, 0x205F, 0x3000, 0xFEFF]"

definition is_space :: "jschar \<Rightarrow> bool" where
  "is_space c = (c \<in> set js_space_units)"

definition trim :: "jsstring \<Rightarrow> jsstring" where
  "trim s = rev (dropWhile is_space (rev (dropWhile is_space s)))"

text \<open>\<open>s.slice(0, n)\<close> for a non-negative \<open>n\<close>.\<close>

definition slice0 :: "nat \<Rightarrow> jsstring \<Rightarrow> jsstring" where
  "slice0 n s = take n s"

section \<open>sanitize\<close>

definition is_crlf :: "jschar \<Rightarrow> bool" where
  "is_crlf c = (c = 0x0D \<or> c = 0x0A)"

text \<open>
  \<open>.replace(/[\r\n]+/g, " ")\<close>: scanning from the left, the greedy \<open>+\<close> takes a
  whole run of CR and LF, which is replaced by one space; the scan goes on after the run.
\<close>

function replace_crlf_runs :: "jsstring \<Rightarrow> jsstring" where
  "replace_crlf_runs [] = []"
| "replace_crlf_runs (c # cs) =
     (if is_crlf c then 0x20 # replace_crlf_runs (dropWhile is_crlf cs)
      else c # replace_crlf_runs cs)"
  by pat_completeness auto
termination
  by (relation "measure length") (auto simp: length_dropWhile_le less_Suc_eq_le)

definition sanitize_text :: "jsstring \<Rightarrow> jsstring" where
  "sanitize_text s = slice0 4000 (trim (replace_crlf_runs s))"

definition sanitize :: "jsval \<Rightarrow> jserror + jsstring" where
  "sanitize str =
     (case string_or_empty str of
        Inl e \<Rightarrow> Inl e
      | Inr s \<Rightarrow> Inr (sanitize_text s))"

section \<open>escapeHtml\<close>

text \<open>\<open>s.replaceAll(pat, rep)\<close> for a one-character pattern.\<close>

fun replaceAll1 :: "jschar \<Rightarrow> jsstring \<Rightarrow> jsstring \<Rightarrow> jsstring" where
  "replaceAll1 p r [] = []"
| "replaceAll1 p r (c # cs) = (if c = p then r @ replaceAll1 p r cs else c # replaceAll1 p r cs)"

definition escape_text :: "jsstring \<Rightarrow> jsstring" where
  "escape_text s =
     replaceAll1 0x27 (lit ''&#039;'')
       (replaceAll1 0x22 (lit ''&quot;'')
         (replaceAll1 0x3E (lit ''&gt;'')
           (replaceAll1 0x3C (lit ''&lt;'')
             (replaceAll1 0x26 (lit ''&amp;'') s))))"

definition escapeHtml :: "jsval \<Rightarrow> jserror + jsstring" where
  "escapeHtml str =
     (case string_or_empty str of
        Inl e \<Rightarrow> Inl e
      | Inr s \<Rightarrow> Inr (escape_text s))"

section \<open>Regular expressions\<close>

text \<open>
  The two regular expressions of \<open>server.js\<close> are sequences of single characters,
  character classes and \<open>class+\<close>. \<open>rx_rests r s\<close> lists what is left of \<open>s\<close> after
  each way in which \<open>r\<close> matches a prefix of it; \<open>RegExp.prototype.test\<close> succeeds when
  some way of matching exists, whatever order the backtracking tries them in.
\<close>

datatype rx =
    Eps
  | One "jschar \<Rightarrow> bool"
  | Many1 "jschar \<Rightarrow> bool"
  | Then rx rx

fun many1_rests :: "(jschar \<Rightarrow> bool) \<Rightarrow> jsstring \<Rightarrow> jsstring list" where
  "many1_rests p [] = []"
| "many1_rests p (c # cs) = (if p c then cs # many1_rests p cs else [])"

fun rx_rests :: "rx \<Rightarrow> jsstring \<Rightarrow> jsstring list" where
  "rx_rests Eps s = [s]"
| "rx_rests (One p) s = (case s of [] \<Rightarrow> [] | c # cs \<Rightarrow> if p c then [cs] else [])"
| "rx_rests (Many1 p) s = many1_rests p s"
| "rx_rests (Then a b) s = concat (map (rx_rests b) (rx_rests a s))"

text \<open>\<open>/^r$/.test(s)\<close> and \<open>/r$/.test(s)\<close>.\<close>

definition test_whole :: "rx \<Rightarrow> jsstring \<Rightarrow> bool" where
  "test_whole r s = ([] \<in> set (rx_rests r s))"

definition test_at_end :: "rx \<Rightarrow> jsstring \<Rightarrow> bool" where
  "test_at_end r s = list_ex (test_whole r) (suffixes s)"

fun rx_word :: "jsstring \<Rightarrow> rx" where
  "rx_word [] = Eps"
| "rx_word (c # cs) = Then (One (\<lambda>x. x = c)) (rx_word cs)"

section \<open>isEmail\<close>

text \<open>The class \<open>[^\s@]\<close>.\<close>

definition not_space_at :: "jschar \<Rightarrow> bool" where
  "not_space_at c = (\<not> is_space c \<and> c \<noteq> 0x40)"

text \<open>\<open>/^[^\s@]+@[^\s@]+\.[^\s@]+$/\<close>\<close>

definition email_rx :: rx where
  "email_rx =
     Then (Many1 not_space_at)
       (Then (One (\<lambda>c. c = 0x40))
         (Then (Many1 not_space_at)
           (Then (One (\<lambda>c. c = 0x2E))
             (Many1 not_space_at))))"

definition isEmail :: "jsval \<Rightarrow> jserror + bool" where
  "isEmail str =
     (case string_or_empty str of
        Inl e \<Rightarrow> Inl e
      | Inr s \<Rightarrow> Inr (test_whole email_rx (trim s)))"

section \<open>Configuration and the mail transport\<close>

text \<open>\<open>process.env\<close>: each variable is a string or is not set.\<close>

record env =
  CONTACT_TO_EMAIL :: "jsstring option"
  CONTACT_FROM_EMAIL :: "jsstring option"
  SMTP_HOST :: "jsstring option"
  SMTP_PORT :: "jsstring option"
  SMTP_SECURE :: "jsstring option"
  SMTP_USER :: "jsstring option"
  SMTP_PASS :: "jsstring option"
  ALLOWED_ORIGIN :: "jsstring option"

text \<open>\<open>!x\<close> for a variable of the environment: not set, or the empty string.\<close>

definition unset :: "jsstring option \<Rightarrow> bool" where
  "unset x = (case x of None \<Rightarrow> True | Some s \<Rightarrow> s = [])"

text \<open>\<open>a || b\<close> on variables of the environment.\<close>

definition or_else :: "jsstring option \<Rightarrow> jsstring option \<Rightarrow> jsstring option" where
  "or_else a b = (if unset a then b else a)"

text \<open>
  The options handed to \<open>nodemailer.createTransport\<close>. The port is kept as the text
  that \<open>Number\<close> is applied to, \<open>None\<close> standing for the default 465.
\<close>

record transporter =
  tr_host :: jsstring
  tr_port :: "jsstring option"
  tr_secure :: bool
  tr_user :: jsstring
  tr_pass :: jsstring

definition createTransporter :: "env \<Rightarrow> jserror + transporter" where
  "createTransporter e =
     (let host = SMTP_HOST e;
          port = (if unset (SMTP_PORT e) then None else SMTP_PORT e);
          secure = (if unset (SMTP_SECURE e) then True else SMTP_SECURE e = Some (lit ''true''));
          user = SMTP_USER e;
          pass = SMTP_PASS e
      in if unset host \<or> unset user \<or> unset pass
         then Inl (Error (lit ''Missing SMTP config. Set SMTP_HOST, SMTP_USER, SMTP_PASS (and optionally SMTP_PORT/SMTP_SECURE).''))
         else Inr \<lparr>tr_host = the host, tr_port = port, tr_secure = secure,
                   tr_user = the user, tr_pass = the pass\<rparr>)"

record mail =
  mail_from :: "jsstring option"
  mail_to :: jsstring
  mail_subject :: jsstring
  mail_text :: jsstring
  mail_html :: jsstring
  mail_replyTo :: jsstring

text \<open>
  \<open>transporter.sendMail\<close> belongs to nodemailer and to the relay: the handler is
  given it as a function, \<open>None\<close> when the promise resolves and \<open>Some err\<close> when it
  rejects.
\<close>

type_synonym sendMail = "transporter \<Rightarrow> mail \<Rightarrow> jserror option"

section \<open>The contact endpoint\<close>

text \<open>
  What the handler reads from the request: the three fields of the body, \<open>req.ip\<close>,
  the \<open>User-Agent\<close> header, and the two readings of the clock
  (\<open>new Date().toISOString()\<close> in the text and in the HTML).
\<close>

record request =
  req_name :: jsval
  req_email :: jsval
  req_message :: jsval
  req_ip :: "jsstring option"
  req_user_agent :: "jsstring option"
  now_text :: jsstring
  now_html :: jsstring

datatype resp_body = Ok | Failure jsstring

text \<open>
  The result of one run of the handler: the response, the calls of \<open>sendMail\<close> in
  order, and what \<open>console.error\<close> printed.
\<close>

record outcome =
  status :: nat
  body :: resp_body
  sent :: "(transporter \<times> mail) list"
  logged :: "jserror list"

definition respond :: "nat \<Rightarrow> resp_body \<Rightarrow> (transporter \<times> mail) list \<Rightarrow> outcome" where
  "respond st b calls = \<lparr>status = st, body = b, sent = calls, logged = []\<rparr>"

text \<open>The \<open>catch\<close> block.\<close>

definition caught :: "jserror \<Rightarrow> (transporter \<times> mail) list \<Rightarrow> outcome" where
  "caught err calls =
     \<lparr>status = 500, body = Failure (lit ''Failed to send message.''),
      sent = calls, logged = [err]\<rparr>"

definition join_lines :: "jsstring list \<Rightarrow> jsstring" where
  "join_lines ls = concat (case ls of [] \<Rightarrow> [] | l # rest \<Rightarrow> l # map (\<lambda>x. 0x0A # x) rest)"

text \<open>\<open>`${v}`\<close> for a string that may be \<open>undefined\<close>.\<close>

definition template_value :: "jsstring option \<Rightarrow> jsstring" where
  "template_value v = (case v of None \<Rightarrow> lit ''undefined'' | Some s \<Rightarrow> s)"

definition opt_val :: "jsstring option \<Rightarrow> jsval" where
  "opt_val v = (case v of None \<Rightarrow> JUndefined | Some s \<Rightarrow> JStr s)"

text \<open>\<open>req.get("user-agent") || "unknown"\<close>\<close>

definition user_agent_or_unknown :: "request \<Rightarrow> jsstring" where
  "user_agent_or_unknown req =
     (if unset (req_user_agent req) then lit ''unknown'' else the (req_user_agent req))"

definition mail_subject_of :: "jsstring \<Rightarrow> jsstring" where
  "mail_subject_of name = lit ''Case Closed Inquiry '' @ [0x2014] @ lit '' '' @ name"

definition text_body :: "request \<Rightarrow> jsstring \<Rightarrow> jsstring \<Rightarrow> jsstring \<Rightarrow> jsstring" where
  "text_body req name email message =
     join_lines
       [lit ''New inquiry from the Case Closed website'',
        lit ''---------------------------------------'',
        lit ''Name: '' @ name,
        lit ''Email: '' @ email,
        [],
        lit ''Message:'',
        message,
        [],
        lit ''Sent at: '' @ now_text req,
        lit ''IP: '' @ template_value (req_ip req),
        lit ''User-Agent: '' @ user_agent_or_unknown req]"

text \<open>
  The HTML template, with the five places where an escaped value is inserted
  (name, email, message, IP, user agent) and the one where the clock is.
\<close>

definition html_template ::
  "jsstring \<Rightarrow> jsstring \<Rightarrow> jsstring \<Rightarrow> jsstring \<Rightarrow> jsstring \<Rightarrow> jsstring \<Rightarrow> jsstring" where
  "html_template hname hemail hmessage now hip hua =
     [0xA] @ lit ''      <h2>New inquiry from the Case Closed website</h2>'' @ [0xA]
       @ lit ''      <p><strong>Name:</strong> '' @ hname
     @ lit ''<br/>'' @ [0xA] @ lit ''         <strong>Email:</strong> '' @ hemail
     @ lit ''</p>'' @ [0xA] @ lit ''      <p><strong>Message:</strong></p>'' @ [0xA]
       @ lit ''      <pre style='' @ [0x22]
       @ lit ''white-space:pre-wrap; font-family:Inter,system-ui,Arial; background:#f7f2ee; padding:12px; border-radius:10px; border:1px solid #e8d7cc;''
       @ [0x22] @ lit ''>'' @ hmessage
     @ lit ''</pre>'' @ [0xA] @ lit ''      <p style='' @ [0x22]
       @ lit ''color:#6b625c; font-size:12px;'' @ [0x22] @ lit ''>'' @ [0xA]
       @ lit ''        Sent at '' @ now
     @ lit '' '' @ [0x2022] @ lit '' IP '' @ hip
     @ lit '' '' @ [0x2022] @ lit '' UA '' @ hua
     @ [0xA] @ lit ''      </p>'' @ [0xA] @ lit ''    ''"

definition bind_result :: "jserror + 'a \<Rightarrow> ('a \<Rightarrow> jserror + 'b) \<Rightarrow> jserror + 'b" where
  "bind_result r f = (case r of Inl e \<Rightarrow> Inl e | Inr x \<Rightarrow> f x)"

definition html_body :: "request \<Rightarrow> jsstring \<Rightarrow> jsstring \<Rightarrow> jsstring \<Rightarrow> jserror + jsstring" where
  "html_body req name email message =
     bind_result (escapeHtml (JStr name)) (\<lambda>hname.
     bind_result (escapeHtml (JStr email)) (\<lambda>hemail.
     bind_result (escapeHtml (JStr message)) (\<lambda>hmessage.
     bind_result (escapeHtml (opt_val (req_ip req))) (\<lambda>hip.
     bind_result (escapeHtml (JStr (user_agent_or_unknown req))) (\<lambda>hua.
       Inr (html_template hname hemail hmessage (now_html req) hip hua))))))"

definition name_error :: jsstring where
  "name_error = lit ''Please enter your name.''"

definition email_error :: jsstring where
  "email_error = lit ''Please enter a valid email.''"

definition message_error :: jsstring where
  "message_error = lit ''Please enter a longer message.''"

definition recipient_error :: jsstring where
  "recipient_error = lit ''Server not configured: CONTACT_TO_EMAIL missing.''"

text \<open>The object given to \<open>sendMail\<close>.\<close>

definition compose_mail ::
  "env \<Rightarrow> request \<Rightarrow> jsstring \<Rightarrow> jsstring \<Rightarrow> jsstring \<Rightarrow> jsstring \<Rightarrow> mail" where
  "compose_mail e req name email message html =
     \<lparr>mail_from = or_else (CONTACT_FROM_EMAIL e) (SMTP_USER e),
      mail_to = the (CONTACT_TO_EMAIL e),
      mail_subject = mail_subject_of name,
      mail_text = text_body req name email message,
      mail_html = html,
      mail_replyTo = email\<rparr>"

text \<open>
  The part of the handler after the three validation rules: the recipient check,
  the transporter, the two bodies and the one call of \<open>sendMail\<close>.
\<close>

definition deliver ::
  "env \<Rightarrow> sendMail \<Rightarrow> request \<Rightarrow> jsstring \<Rightarrow> jsstring \<Rightarrow> jsstring \<Rightarrow> outcome" where
  "deliver e send req name email message =
     (if unset (CONTACT_TO_EMAIL e) then respond 500 (Failure recipient_error) []
      else case createTransporter e of
             Inl err \<Rightarrow> caught err []
           | Inr tr \<Rightarrow>
               (case html_body req name email message of
                  Inl err \<Rightarrow> caught err []
                | Inr html \<Rightarrow>
                    (let m = compose_mail e req name email message html
                     in case send tr m of
                          Some err \<Rightarrow> caught err [(tr, m)]
                        | None \<Rightarrow> respond 200 Ok [(tr, m)])))"

text \<open>\<open>app.post("/api/contact", ...)\<close>\<close>

definition contact_handler :: "env \<Rightarrow> sendMail \<Rightarrow> request \<Rightarrow> outcome" where
  "contact_handler e send req =
     (case sanitize (req_name req) of
        Inl err \<Rightarrow> caught err []
      | Inr name \<Rightarrow>
     (case sanitize (req_email req) of
        Inl err \<Rightarrow> caught err []
      | Inr email \<Rightarrow>
     (case sanitize (req_message req) of
        Inl err \<Rightarrow> caught err []
      | Inr message \<Rightarrow>
          if name = [] \<or> length name < 2 then respond 400 (Failure name_error) []
          else if email = [] then respond 400 (Failure email_error) []
          else (case isEmail (JStr email) of
                  Inl err \<Rightarrow> caught err []
                | Inr valid \<Rightarrow>
                    if \<not> valid then respond 400 (Failure email_error) []
                    else if message = [] \<or> length message < 10
                      then respond 400 (Failure message_error) []
                    else deliver e send req name email message))))"

section \<open>Application setup: CORS\<close>

text \<open>
  An entry of the \<open>origin\<close> option of the \<open>cors\<close> middleware: a string, compared
  with \<open>===\<close>, or a regular expression of the form \<open>/r$/\<close>, applied with \<open>test\<close>
  (which converts a missing \<open>Origin\<close> header to the text \<open>undefined\<close>). With a list
  of entries the origin is allowed when some entry allows it. This is the documented
  behaviour of the package, which is not part of \<open>server.js\<close>. The middleware
  registered with \<open>app.use\<close> answers every OPTIONS request itself, so the later
  \<open>app.options(/.*/, cors())\<close> decides nothing; it does not read the environment
  either.
\<close>

datatype origin_rule = OriginString jsstring | OriginPattern rx

fun rule_allows :: "origin_rule \<Rightarrow> jsstring option \<Rightarrow> bool" where
  "rule_allows (OriginString a) origin = (origin = Some a)"
| "rule_allows (OriginPattern r) origin = test_at_end r (template_value origin)"

text \<open>\<open>s.split(",")\<close>\<close>

fun split_on :: "jschar \<Rightarrow> jsstring \<Rightarrow> jsstring list" where
  "split_on d [] = [[]]"
| "split_on d (c # cs) =
     (if c = d then [] # split_on d cs
      else (case split_on d cs of [] \<Rightarrow> [[c]] | p # ps \<Rightarrow> (c # p) # ps))"

text \<open>
  What the top level of \<open>server.js\<close> computes from the environment: the constant
  \<open>allowedOrigins\<close>, and the \<open>origin\<close> option given to \<open>cors\<close>.
\<close>

record app_config =
  cfg_allowedOrigins :: "jsstring list"
  cfg_cors_origin :: "origin_rule list"

definition allowedOrigins :: "env \<Rightarrow> jsstring list" where
  "allowedOrigins e =
     filter (\<lambda>s. s \<noteq> [])
       (map trim (split_on 0x2C (if unset (ALLOWED_ORIGIN e) then [] else the (ALLOWED_ORIGIN e))))"

definition configure :: "env \<Rightarrow> app_config" where
  "configure e =
     \<lparr>cfg_allowedOrigins = allowedOrigins e,
      cfg_cors_origin =
        [OriginPattern (rx_word (lit ''.netlify.app'')),
         OriginString (lit ''http://localhost:5500''),
         OriginString (lit ''http://127.0.0.1:5500'')]\<rparr>"

definition cors_allows :: "app_config \<Rightarrow> jsstring option \<Rightarrow> bool" where
  "cors_allows cfg origin = list_ex (\<lambda>r. rule_allows r origin) (cfg_cors_origin cfg)"

section \<open>Application setup: rate limiting\<close>

record limiter_options =
  windowMs :: nat
  limit_max :: nat

definition contactLimiter :: limiter_options where
  "contactLimiter = \<lparr>windowMs = 10 * 60 * 1000, limit_max = 20\<rparr>"

record counter =
  total_hits :: nat
  reset_time :: nat

type_synonym hit_store = "jsstring option \<rightharpoonup> counter"

text \<open>
  Modelled from the spec: the decision of the rate-limiting middleware, which is
  the package \<open>express-rate-limit\<close> and not part of \<open>server.js\<close>. The spec describes
  process-wide counters keyed by client address, updated once per request, with a
  fixed window of \<open>windowMs\<close> and a cap per key, after which further requests are
  rejected until the window rolls over. A key's window opens with its first request,
  or with its first request at or after the end of its previous window, and every
  request is counted, the rejected ones too.
\<close>

definition limiter_increment ::
  "limiter_options \<Rightarrow> hit_store \<Rightarrow> jsstring option \<Rightarrow> nat \<Rightarrow> hit_store \<times> counter" where
  "limiter_increment opts store key now =
     (let fresh = \<lparr>total_hits = 0, reset_time = now + windowMs opts\<rparr>;
          c = (case store key of
                 None \<Rightarrow> fresh
               | Some c \<Rightarrow> if now < reset_time c then c else fresh);
          c' = c\<lparr>total_hits := total_hits c + 1\<rparr>
      in (store(key \<mapsto> c'), c'))"

text \<open>
  Modelled from the spec: a request is passed on while its address has made at most
  \<open>max\<close> requests in the current window, this one included, and is rejected
  otherwise.
\<close>

definition rate_limit ::
  "limiter_options \<Rightarrow> hit_store \<Rightarrow> jsstring option \<Rightarrow> nat \<Rightarrow> hit_store \<times> bool" where
  "rate_limit opts store key now =
     (let (store', c) = limiter_increment opts store key now
      in (store', total_hits c \<le> limit_max opts))"

text \<open>
  A request as it arrives at \<open>app.use("/api/contact", contactLimiter)\<close>. Express
  decides which paths the mount and the route match: \<open>PostContact\<close> is a POST that
  \<open>app.post("/api/contact", ...)\<close> handles, \<open>UnderContact\<close> any other request that
  the mount path matches, \<open>Outside\<close> a request that the mount path does not match.
  The key of the limiter is \<open>req.ip\<close>.
\<close>

datatype target = PostContact | UnderContact | Outside

record http_request = request +
  http_target :: target
  http_time :: nat

datatype http_result = TooManyRequests | Contact outcome | Elsewhere

definition app_request ::
  "env \<Rightarrow> sendMail \<Rightarrow> hit_store \<Rightarrow> http_request \<Rightarrow> hit_store \<times> http_result" where
  "app_request e send store rq =
     (if http_target rq = Outside then (store, Elsewhere)
      else (case rate_limit contactLimiter store (req_ip rq) (http_time rq) of
              (store', False) \<Rightarrow> (store', TooManyRequests)
            | (store', True) \<Rightarrow>
                (store',
                 if http_target rq = PostContact
                 then Contact (contact_handler e send (request.truncate rq))
                 else Elsewhere)))"

fun app_run ::
  "env \<Rightarrow> sendMail \<Rightarrow> hit_store \<Rightarrow> http_request list \<Rightarrow> http_result list" where
  "app_run e send store [] = []"
| "app_run e send store (rq # rqs) =
     (case app_request e send store rq of
        (store', r) \<Rightarrow> r # app_run e send store' rqs)"

section \<open>Notions used in the statements\<close>

text \<open>
  The values that ToString converts without throwing: every value except an object
  with an own key \<open>toString\<close> and an array that holds such an object.
\<close>

fun convertible :: "jsval \<Rightarrow> bool" where
  "convertible (JArr vs) = list_all convertible vs"
| "convertible (JObj kvs) = (lit ''toString'' \<notin> fst ` set kvs)"
| "convertible _ = True"

text \<open>The replacement table of \<open>escapeHtml\<close>, character by character.\<close>

definition html_entity :: "jschar \<Rightarrow> jsstring" where
  "html_entity c =
     (if c = 0x26 then lit ''&amp;''
      else if c = 0x3C then lit ''&lt;''
      else if c = 0x3E then lit ''&gt;''
      else if c = 0x22 then lit ''&quot;''
      else if c = 0x27 then lit ''&#039;''
      else [c])"

text \<open>
  The shape of an address in the words of the specification: exactly one \<open>@\<close>, at
  least one \<open>.\<close> after it, and no white space.
\<close>

definition described_email_shape :: "jsstring \<Rightarrow> bool" where
  "described_email_shape s =
     (count_list s 0x40 = 1
      \<and> 0x2E \<in> set (tl (dropWhile (\<lambda>c. c \<noteq> 0x40) s))
      \<and> list_all (\<lambda>c. \<not> is_space c) s)"

text \<open>
  The shape that the regular expression of \<open>isEmail\<close> accepts: exactly one \<open>@\<close>,
  with a character before it; a \<open>.\<close> after it that is neither the character next
  to the \<open>@\<close> nor the last one; and no white space.
\<close>

definition accepted_email_shape :: "jsstring \<Rightarrow> bool" where
  "accepted_email_shape s =
     (count_list s 0x40 = 1
      \<and> takeWhile (\<lambda>c. c \<noteq> 0x40) s \<noteq> []
      \<and> 0x2E \<in> set (butlast (tl (tl (dropWhile (\<lambda>c. c \<noteq> 0x40) s))))
      \<and> list_all (\<lambda>c. \<not> is_space c) s)"

text \<open>The HTML body that the handler builds from three sanitized fields.\<close>

definition escaped_html :: "request \<Rightarrow> jsstring \<Rightarrow> jsstring \<Rightarrow> jsstring \<Rightarrow> jsstring" where
  "escaped_html req name email message =
     html_template (escape_text name) (escape_text email) (escape_text message) (now_html req)
       (escape_text (case req_ip req of None \<Rightarrow> [] | Some ip \<Rightarrow> ip))
       (escape_text (user_agent_or_unknown req))"

text \<open>A complete configuration and the submission of the specification's example.\<close>

definition example_env :: env where
  "example_env =
     \<lparr>CONTACT_TO_EMAIL = Some (lit ''owner@example.com''),
      CONTACT_FROM_EMAIL = None,
      SMTP_HOST = Some (lit ''smtp.example.com''),
      SMTP_PORT = None,
      SMTP_SECURE = None,
      SMTP_USER = Some (lit ''mailer''),
      SMTP_PASS = Some (lit ''secret''),
      ALLOWED_ORIGIN = None\<rparr>"

definition example_request :: request where
  "example_request =
     \<lparr>req_name = JStr (lit ''Jo''),
      req_email = JStr (lit ''jo@example.com''),
      req_message = JStr (lit ''Hello, this is long enough.''),
      req_ip = Some (lit ''203.0.113.7''),
      req_user_agent = Some (lit ''curl/8.0''),
      now_text = lit ''2024-01-01T00:00:00.000Z'',
      now_html = lit ''2024-01-01T00:00:00.000Z''\<rparr>"

definition example_transporter :: transporter where
  "example_transporter =
     \<lparr>tr_host = lit ''smtp.example.com'', tr_port = None, tr_secure = True,
      tr_user = lit ''mailer'', tr_pass = lit ''secret''\<rparr>"

text \<open>
  For the rate limiter, the windows of one address, told from the times of its
  requests in the order of their arrival. A request that comes before the end of the
  open window falls into it and takes the next number; any other request opens a new
  window, which ends \<open>w\<close> later, and takes the number 1. The pair is the end of the open
  window and the number of the last request in it; before the first request no window
  is open.
\<close>

fun window_step :: "nat \<Rightarrow> nat \<times> nat \<Rightarrow> nat \<Rightarrow> nat \<times> nat" where
  "window_step w (ends, n) t = (if t < ends then (ends, Suc n) else (t + w, 1))"

definition window_end :: "nat \<Rightarrow> nat list \<Rightarrow> nat" where
  "window_end w ts = fst (foldl (window_step w) (0, 0) ts)"

definition window_ordinal :: "nat \<Rightarrow> nat list \<Rightarrow> nat" where
  "window_ordinal w ts = snd (foldl (window_step w) (0, 0) ts)"

text \<open>
  The times of the requests among \<open>rqs\<close> that came from the address \<open>ip\<close> to a path
  under the mount, in the order of their arrival.
\<close>

definition address_times :: "jsstring option \<Rightarrow> http_request list \<Rightarrow> nat list" where
  "address_times ip rqs =
     map http_time (filter (\<lambda>r. http_target r \<noteq> Outside \<and> req_ip r = ip) rqs)"

text \<open>What a store holds for an address: the end of its window and its count.\<close>

definition store_window :: "hit_store \<Rightarrow> jsstring option \<Rightarrow> nat \<times> nat" where
  "store_window store ip =
     (case store ip of None \<Rightarrow> (0, 0) | Some c \<Rightarrow> (reset_time c, total_hits c))"

text \<open>The example submission as a POST to \<open>/api/contact\<close> at time 0.\<close>

definition example_post :: http_request where
  "example_post =
     \<lparr>req_name = JStr (lit ''Jo''),
      req_email = JStr (lit ''jo@example.com''),
      req_message = JStr (lit ''Hello, this is long enough.''),
      req_ip = Some (lit ''203.0.113.7''),
      req_user_agent = Some (lit ''curl/8.0''),
      now_text = lit ''2024-01-01T00:00:00.000Z'',
      now_html = lit ''2024-01-01T00:00:00.000Z'',
      http_target = PostContact,
      http_time = 0\<rparr>"

section \<open>Conversion to a string\<close>

lemma sequence_results_total:
  "\<forall>r \<in> set rs. \<exists>x. r = Inr x \<Longrightarrow> \<exists>xs. sequence_results rs = Inr xs"
proof (induction rs)
  case Nil
  then show ?case by simp
next
  case (Cons r rs)
  then obtain x where "r = Inr x" by auto
  moreover from Cons obtain xs where "sequence_results rs = Inr xs" by auto
  ultimately show ?case by simp
qed

lemma sequence_results_Inr:
  "sequence_results rs = Inr xs \<Longrightarrow> r \<in> set rs \<Longrightarrow> \<exists>x. r = Inr x"
  by (induction rs arbitrary: xs) (auto split: sum.splits)

lemma js_ToString_convertible: "convertible v \<Longrightarrow> \<exists>s. js_ToString v = Inr s"
proof (induction v)
  case (JArr vs)
  let ?f = "\<lambda>v. if v = JUndefined \<or> v = JNull then Inr [] else js_ToString v"
  have "\<exists>x. ?f w = Inr x" if w: "w \<in> set vs" for w
  proof (cases "w = JUndefined \<or> w = JNull")
    case True
    then show ?thesis by simp
  next
    case False
    from JArr.prems w have "convertible w" by (simp add: list_all_iff)
    then have "\<exists>s. js_ToString w = Inr s" using JArr.IH w by blast
    with False show ?thesis by simp
  qed
  then have "\<forall>r \<in> set (map ?f vs). \<exists>x. r = Inr x" by (simp only: set_map ball_simps) blast
  then obtain ss where "sequence_results (map ?f vs) = Inr ss"
    using sequence_results_total by blast
  then show ?case by simp
next
  case (JObj kvs)
  then show ?case by simp
qed simp_all

lemma js_ToString_throws: "\<not> convertible v \<Longrightarrow> \<exists>e. js_ToString v = Inl e"
proof (induction v)
  case (JArr vs)
  then obtain w where w: "w \<in> set vs" "\<not> convertible w" by (auto simp: list_all_iff)
  then have nn: "\<not> (w = JUndefined \<or> w = JNull)" by auto
  from JArr.IH w obtain e where e: "js_ToString w = Inl e" by blast
  let ?f = "\<lambda>v. if v = JUndefined \<or> v = JNull then Inr [] else js_ToString v"
  have mem: "?f w \<in> set (map ?f vs)" using w(1) by (simp only: set_map) (rule imageI)
  have fw: "?f w = Inl e" using nn e by simp
  show ?case
  proof (cases "sequence_results (map ?f vs)")
    case (Inl err)
    then show ?thesis by simp
  next
    case (Inr ss)
    from sequence_results_Inr [OF Inr mem] fw show ?thesis by simp
  qed
next
  case (JObj kvs)
  then show ?case by simp
qed simp_all

lemma string_or_empty_convertible: "convertible v \<Longrightarrow> \<exists>s. string_or_empty v = Inr s"
  by (simp add: string_or_empty_def js_ToString_convertible)

lemma string_or_empty_throws: "\<not> convertible v \<Longrightarrow> \<exists>e. string_or_empty v = Inl e"
proof -
  assume n: "\<not> convertible v"
  have "truthy v"
  proof (cases v)
    case (JArr vs)
    then show ?thesis by simp
  next
    case (JObj kvs)
    then show ?thesis by simp
  qed (use n in simp_all)
  with n show ?thesis by (simp add: string_or_empty_def js_ToString_throws)
qed

section \<open>Properties of replacing, trimming and slicing\<close>

lemma is_crlf_space: "is_crlf c \<Longrightarrow> is_space c"
  by (auto simp: is_crlf_def is_space_def js_space_units_def)

lemma space_not_crlf: "\<not> is_crlf 0x20"
  by (simp add: is_crlf_def)

lemma replace_crlf_runs_free: "\<forall>c \<in> set s. \<not> is_crlf c \<Longrightarrow> replace_crlf_runs s = s"
  by (induction s) auto

lemma set_dropWhile_subset: "set (dropWhile P xs) \<subseteq> set xs"
  by (induction xs) auto

lemma replace_crlf_runs_no_crlf: "c \<in> set (replace_crlf_runs s) \<Longrightarrow> \<not> is_crlf c"
proof (induction s rule: replace_crlf_runs.induct)
  case 1
  then show ?case by simp
next
  case (2 d ds)
  show ?case
  proof (cases "is_crlf d")
    case True
    with "2.prems" have "c = 0x20 \<or> c \<in> set (replace_crlf_runs (dropWhile is_crlf ds))"
      by simp
    then show ?thesis using "2.IH"(1) [OF True] space_not_crlf by blast
  next
    case False
    with "2.prems" have "c = d \<or> c \<in> set (replace_crlf_runs ds)" by simp
    then show ?thesis using "2.IH"(2) [OF False] False by blast
  qed
qed

lemma replace_crlf_runs_length: "length (replace_crlf_runs s) \<le> length s"
proof (induction s rule: replace_crlf_runs.induct)
  case 1
  then show ?case by simp
next
  case (2 d ds)
  have "length (dropWhile is_crlf ds) \<le> length ds" by (rule length_dropWhile_le)
  with 2 show ?case by (auto split: if_splits)
qed

lemma replace_crlf_runs_append_free:
  "\<forall>c \<in> set a. \<not> is_crlf c \<Longrightarrow> replace_crlf_runs (a @ b) = a @ replace_crlf_runs b"
  by (induction a) auto

lemma replace_crlf_runs_run:
  assumes "r \<noteq> []" "\<forall>c \<in> set r. is_crlf c" "b = [] \<or> \<not> is_crlf (hd b)"
  shows "replace_crlf_runs (r @ b) = 0x20 # replace_crlf_runs b"
proof -
  obtain c cs where r: "r = c # cs" using assms(1) by (cases r) auto
  have "dropWhile is_crlf (cs @ b) = b"
    using assms(2,3) r by (cases b) (auto simp: dropWhile_append)
  then show ?thesis using assms(2) r by simp
qed

lemma set_trim_subset: "set (trim s) \<subseteq> set s"
proof -
  have "set (trim s) \<subseteq> set (dropWhile is_space s)"
    unfolding trim_def using set_dropWhile_subset [of is_space "rev (dropWhile is_space s)"] by simp
  also have "\<dots> \<subseteq> set s" by (rule set_dropWhile_subset)
  finally show ?thesis .
qed

lemma length_trim_le: "length (trim s) \<le> length s"
proof -
  have "length (trim s) \<le> length (dropWhile is_space s)"
    unfolding trim_def using length_dropWhile_le [of is_space "rev (dropWhile is_space s)"] by simp
  also have "\<dots> \<le> length s" by (rule length_dropWhile_le)
  finally show ?thesis .
qed

lemma trim_no_leading: "trim s \<noteq> [] \<Longrightarrow> \<not> is_space (hd (trim s))"
proof -
  assume ne: "trim s \<noteq> []"
  let ?d = "dropWhile is_space s"
  have dne: "?d \<noteq> []"
  proof
    assume e: "?d = []"
    have "trim s = []" unfolding trim_def e by simp
    with ne show False by simp
  qed
  have hd_d: "\<not> is_space (hd ?d)" using dne by (rule hd_dropWhile)
  have "rev ?d = takeWhile is_space (rev ?d) @ dropWhile is_space (rev ?d)" by simp
  then have "?d = trim s @ rev (takeWhile is_space (rev ?d))"
    unfolding trim_def by (metis rev_append rev_rev_ident)
  then have "hd ?d = hd (trim s)" using ne by (metis hd_append2)
  with hd_d show ?thesis by simp
qed

lemma trim_no_trailing: "trim s \<noteq> [] \<Longrightarrow> \<not> is_space (last (trim s))"
proof -
  assume ne: "trim s \<noteq> []"
  let ?e = "dropWhile is_space (rev (dropWhile is_space s))"
  have "?e \<noteq> []" using ne by (simp add: trim_def)
  then have "\<not> is_space (hd ?e)" by (rule hd_dropWhile)
  moreover have "last (trim s) = hd ?e" using \<open>?e \<noteq> []\<close> by (simp add: trim_def last_rev)
  ultimately show ?thesis by simp
qed

lemma trim_fixed:
  assumes "t = [] \<or> \<not> is_space (hd t)" "t = [] \<or> \<not> is_space (last t)"
  shows "trim t = t"
proof (cases t)
  case Nil
  then show ?thesis by (simp add: trim_def)
next
  case (Cons c cs)
  then have 1: "dropWhile is_space t = t" using assms(1) by simp
  have "rev t \<noteq> []" using Cons by simp
  moreover have "hd (rev t) = last t" using Cons by (simp add: hd_rev)
  ultimately have 2: "dropWhile is_space (rev t) = rev t"
    using assms(2) Cons by (cases "rev t") auto
  show ?thesis by (simp add: trim_def 1 2)
qed

lemma trim_drop_trailing:
  assumes "t = [] \<or> \<not> is_space (hd t)"
  shows "trim t = rev (dropWhile is_space (rev t))"
proof (cases t)
  case Nil
  then show ?thesis by (simp add: trim_def)
next
  case (Cons c cs)
  then have "dropWhile is_space t = t" using assms by simp
  then show ?thesis by (simp add: trim_def)
qed

lemma trim_eq_iff: "trim t = t \<longleftrightarrow> t = [] \<or> (\<not> is_space (hd t) \<and> \<not> is_space (last t))"
proof
  assume "trim t = t"
  then show "t = [] \<or> (\<not> is_space (hd t) \<and> \<not> is_space (last t))"
    using trim_no_leading [of t] trim_no_trailing [of t] by auto
next
  assume "t = [] \<or> (\<not> is_space (hd t) \<and> \<not> is_space (last t))"
  then show "trim t = t" by (intro trim_fixed) auto
qed

lemma trim_idem: "trim (trim s) = trim s"
  using trim_no_leading [of s] trim_no_trailing [of s] by (intro trim_fixed) auto

lemma sanitize_text_no_crlf: "c \<in> set (sanitize_text s) \<Longrightarrow> \<not> is_crlf c"
proof -
  assume "c \<in> set (sanitize_text s)"
  then have "c \<in> set (trim (replace_crlf_runs s))"
    unfolding sanitize_text_def slice0_def by (rule in_set_takeD)
  then have "c \<in> set (replace_crlf_runs s)" using set_trim_subset by blast
  then show ?thesis by (rule replace_crlf_runs_no_crlf)
qed

lemma sanitize_text_length: "length (sanitize_text s) \<le> 4000"
  by (simp add: sanitize_text_def slice0_def)

lemma sanitize_text_no_leading:
  "sanitize_text s \<noteq> [] \<Longrightarrow> \<not> is_space (hd (sanitize_text s))"
proof -
  assume ne: "sanitize_text s \<noteq> []"
  let ?t = "trim (replace_crlf_runs s)"
  have "?t \<noteq> []" using ne by (auto simp: sanitize_text_def slice0_def)
  then have "\<not> is_space (hd ?t)" by (rule trim_no_leading)
  moreover have "hd (sanitize_text s) = hd ?t"
    using ne by (simp add: sanitize_text_def slice0_def hd_take)
  ultimately show ?thesis by simp
qed

lemma sanitize_text_twice: "sanitize_text (sanitize_text s) = trim (sanitize_text s)"
proof -
  let ?u = "sanitize_text s"
  have "replace_crlf_runs ?u = ?u"
    by (rule replace_crlf_runs_free) (auto dest: sanitize_text_no_crlf)
  moreover have "length (trim ?u) \<le> 4000"
    using length_trim_le [of ?u] sanitize_text_length [of s] by simp
  ultimately show ?thesis by (simp add: sanitize_text_def [of ?u] slice0_def)
qed

lemma sanitize_text_Nil: "sanitize_text [] = []"
  by (simp add: sanitize_text_def slice0_def trim_def)

lemma sanitize_JStr: "sanitize (JStr t) = Inr (sanitize_text t)"
  by (simp add: sanitize_def string_or_empty_def sanitize_text_Nil)

lemma sanitize_Inr: "sanitize v = Inr t \<Longrightarrow> \<exists>s. string_or_empty v = Inr s \<and> t = sanitize_text s"
  by (auto simp: sanitize_def split: sum.splits)

lemma sanitize_text_untruncated:
  assumes "length (trim (replace_crlf_runs s)) \<le> 4000"
  shows "sanitize_text s = trim (replace_crlf_runs s)"
  using assms by (simp add: sanitize_text_def slice0_def)

lemma sanitize_text_truncated:
  assumes "4000 < length (trim (replace_crlf_runs s))"
  shows "length (sanitize_text s) = 4000"
  using assms by (simp add: sanitize_text_def slice0_def)

lemma sanitize_text_short:
  assumes "length (sanitize_text s) < 4000"
  shows "sanitize_text s = trim (replace_crlf_runs s)"
proof -
  have "\<not> 4000 < length (trim (replace_crlf_runs s))"
    using assms sanitize_text_truncated [of s] by auto
  then show ?thesis by (simp add: sanitize_text_untruncated)
qed

lemma is_crlf_iff: "is_crlf c \<longleftrightarrow> c = 0x0D \<or> c = 0x0A"
  by (simp add: is_crlf_def)

section \<open>Properties of escapeHtml\<close>

lemma replaceAll1_append: "replaceAll1 p r (a @ b) = replaceAll1 p r a @ replaceAll1 p r b"
  by (induction a) auto

lemma escape_text_Nil: "escape_text [] = []"
  by (simp add: escape_text_def)

lemma escape_text_Cons: "escape_text (c # cs) = html_entity c @ escape_text cs"
  by (simp add: escape_text_def html_entity_def lit_def replaceAll1_append)

lemma escape_text_entities: "escape_text s = concat (map html_entity s)"
  by (induction s) (simp_all add: escape_text_Nil escape_text_Cons)

lemma html_entity_safe: "x \<in> set (html_entity c) \<Longrightarrow> x \<notin> {0x3C, 0x3E, 0x22, 0x27}"
  by (auto simp: html_entity_def lit_def split: if_splits)

lemma escape_text_safe: "set (escape_text s) \<inter> {0x3C, 0x3E, 0x22, 0x27} = {}"
proof -
  have "x \<notin> {0x3C, 0x3E, 0x22, 0x27}" if "x \<in> set (escape_text s)" for x
  proof -
    from that obtain c where "c \<in> set s" "x \<in> set (html_entity c)"
      by (auto simp: escape_text_entities)
    then show ?thesis using html_entity_safe by blast
  qed
  then show ?thesis by blast
qed

section \<open>Properties of the regular expressions\<close>

lemma many1_rests_iff:
  "r \<in> set (many1_rests p s) \<longleftrightarrow> (\<exists>w. w \<noteq> [] \<and> list_all p w \<and> s = w @ r)"
proof (induction s)
  case Nil
  then show ?case by simp
next
  case (Cons c cs)
  show ?case
  proof (cases "p c")
    case False
    have "\<not> (\<exists>w. w \<noteq> [] \<and> list_all p w \<and> c # cs = w @ r)"
    proof
      assume "\<exists>w. w \<noteq> [] \<and> list_all p w \<and> c # cs = w @ r"
      then obtain w where w: "w \<noteq> []" "list_all p w" "c # cs = w @ r" by blast
      then obtain w' where "w = c # w'" by (cases w) auto
      with w(2) False show False by simp
    qed
    with False show ?thesis by simp
  next
    case True
    show ?thesis
    proof
      assume "r \<in> set (many1_rests p (c # cs))"
      with True have "r = cs \<or> r \<in> set (many1_rests p cs)" by auto
      then show "\<exists>w. w \<noteq> [] \<and> list_all p w \<and> c # cs = w @ r"
      proof
        assume "r = cs"
        with True have "[c] \<noteq> [] \<and> list_all p [c] \<and> c # cs = [c] @ r" by simp
        then show ?thesis by blast
      next
        assume "r \<in> set (many1_rests p cs)"
        with Cons.IH obtain w where "w \<noteq> []" "list_all p w" "cs = w @ r" by blast
        with True have "c # w \<noteq> [] \<and> list_all p (c # w) \<and> c # cs = (c # w) @ r" by simp
        then show ?thesis by blast
      qed
    next
      assume "\<exists>w. w \<noteq> [] \<and> list_all p w \<and> c # cs = w @ r"
      then obtain w where w: "w \<noteq> []" "list_all p w" "c # cs = w @ r" by blast
      then obtain w' where w': "w = c # w'" by (cases w) auto
      show "r \<in> set (many1_rests p (c # cs))"
      proof (cases "w' = []")
        case True
        with w w' \<open>p c\<close> show ?thesis by simp
      next
        case False
        with w w' have "\<exists>v. v \<noteq> [] \<and> list_all p v \<and> cs = v @ r" by auto
        with Cons.IH \<open>p c\<close> show ?thesis by simp
      qed
    qed
  qed
qed

lemma one_rests_iff: "r \<in> set (rx_rests (One p) s) \<longleftrightarrow> (\<exists>c. p c \<and> s = c # r)"
  by (cases s) auto

lemma then_rests_iff:
  "r \<in> set (rx_rests (Then a b) s) \<longleftrightarrow> (\<exists>m \<in> set (rx_rests a s). r \<in> set (rx_rests b m))"
  by auto

lemma test_whole_email_rx:
  "test_whole email_rx t \<longleftrightarrow>
     (\<exists>l d u. l \<noteq> [] \<and> list_all not_space_at l \<and> d \<noteq> [] \<and> list_all not_space_at d
        \<and> u \<noteq> [] \<and> list_all not_space_at u \<and> t = l @ 0x40 # d @ 0x2E # u)"
  (is "?L \<longleftrightarrow> ?R")
proof
  assume ?L
  then obtain r1 r2 r3 r4 where
    1: "r1 \<in> set (rx_rests (Many1 not_space_at) t)" and
    2: "r2 \<in> set (rx_rests (One (\<lambda>c. c = 0x40)) r1)" and
    3: "r3 \<in> set (rx_rests (Many1 not_space_at) r2)" and
    4: "r4 \<in> set (rx_rests (One (\<lambda>c. c = 0x2E)) r3)" and
    5: "[] \<in> set (rx_rests (Many1 not_space_at) r4)"
    unfolding test_whole_def email_rx_def then_rests_iff by blast
  from 1 obtain l where l: "l \<noteq> []" "list_all not_space_at l" "t = l @ r1"
    by (auto simp: many1_rests_iff)
  from 2 have r1: "r1 = 0x40 # r2" by (auto simp only: one_rests_iff)
  from 3 obtain d where d: "d \<noteq> []" "list_all not_space_at d" "r2 = d @ r3"
    by (auto simp: many1_rests_iff)
  from 4 have r3: "r3 = 0x2E # r4" by (auto simp only: one_rests_iff)
  from 5 have u: "r4 \<noteq> []" "list_all not_space_at r4" by (auto simp: many1_rests_iff)
  from l d u r1 r3 show ?R by blast
next
  assume ?R
  then obtain l d u where h: "l \<noteq> []" "list_all not_space_at l" "d \<noteq> []"
    "list_all not_space_at d" "u \<noteq> []" "list_all not_space_at u" "t = l @ 0x40 # d @ 0x2E # u"
    by blast
  have 5: "[] \<in> set (rx_rests (Many1 not_space_at) u)"
    using h(5,6) by (simp add: many1_rests_iff)
  have 4: "u \<in> set (rx_rests (One (\<lambda>c. c = 0x2E)) (0x2E # u))" by simp
  have 3: "0x2E # u \<in> set (rx_rests (Many1 not_space_at) (d @ 0x2E # u))"
    using h(3,4) by (auto simp: many1_rests_iff)
  have 2: "d @ 0x2E # u \<in> set (rx_rests (One (\<lambda>c. c = 0x40)) (0x40 # d @ 0x2E # u))" by simp
  have 1: "0x40 # d @ 0x2E # u \<in> set (rx_rests (Many1 not_space_at) t)"
    using h(1,2,7) by (auto simp: many1_rests_iff)
  show ?L unfolding test_whole_def email_rx_def then_rests_iff
    using 1 2 3 4 5 by blast
qed

lemma rx_rests_word: "rx_rests (rx_word w) s = (if prefix w s then [drop (length w) s] else [])"
proof (induction w arbitrary: s)
  case Nil
  then show ?case by simp
next
  case (Cons c w)
  then show ?case by (cases s) auto
qed

lemma test_whole_word: "test_whole (rx_word w) t \<longleftrightarrow> t = w"
proof -
  have "prefix w t \<and> drop (length w) t = [] \<longleftrightarrow> t = w"
    by (auto simp: prefix_def)
  then show ?thesis by (auto simp: test_whole_def rx_rests_word)
qed

lemma test_at_end_word: "test_at_end (rx_word w) s \<longleftrightarrow> suffix w s"
  by (simp add: test_at_end_def list_ex_iff test_whole_word in_set_suffixes)

section \<open>The strings that isEmail accepts\<close>

lemma count_list_zero_iff: "count_list xs x = 0 \<longleftrightarrow> x \<notin> set xs"
  by (induction xs) auto

lemma not_space_at_all:
  "list_all not_space_at w \<longleftrightarrow> list_all (\<lambda>c. \<not> is_space c) w \<and> 0x40 \<notin> set w"
  by (induction w) (auto simp: not_space_at_def)

lemma shape_of_parts:
  assumes "l \<noteq> []" "list_all not_space_at l" "d \<noteq> []" "list_all not_space_at d"
    "u \<noteq> []" "list_all not_space_at u" "t = l @ 0x40 # d @ 0x2E # u"
  shows "accepted_email_shape t"
proof -
  have l: "list_all (\<lambda>c. \<not> is_space c) l" "0x40 \<notin> set l"
    and d: "list_all (\<lambda>c. \<not> is_space c) d" "0x40 \<notin> set d"
    and u: "list_all (\<lambda>c. \<not> is_space c) u" "0x40 \<notin> set u"
    using assms(2,4,6) by (simp_all add: not_space_at_all)
  have sp: "\<not> is_space 0x40" "\<not> is_space 0x2E"
    by (simp_all add: is_space_def js_space_units_def)
  have cnt: "count_list t 0x40 = 1"
    using l(2) d(2) u(2) by (simp add: assms(7) count_list_zero_iff)
  have all_l: "\<forall>x \<in> set l. x \<noteq> 0x40" using l(2) by auto
  have "takeWhile (\<lambda>c. c \<noteq> 0x40) l = l"
    using all_l by (simp only: takeWhile_eq_all_conv)
  then have tw: "takeWhile (\<lambda>c. c \<noteq> 0x40) t = l"
    unfolding assms(7) by (simp add: takeWhile_tail)
  have "dropWhile (\<lambda>c. c \<noteq> 0x40) t = dropWhile (\<lambda>c. c \<noteq> 0x40) (0x40 # d @ 0x2E # u)"
    unfolding assms(7) using all_l by (intro dropWhile_append2) simp
  then have dw: "dropWhile (\<lambda>c. c \<noteq> 0x40) t = 0x40 # d @ 0x2E # u" by simp
  obtain d0 d' where dd: "d = d0 # d'" using assms(3) by (cases d) auto
  have "butlast (tl (tl (dropWhile (\<lambda>c. c \<noteq> 0x40) t))) = d' @ 0x2E # butlast u"
    using assms(5) by (simp add: dw dd butlast_append)
  then have dot: "0x2E \<in> set (butlast (tl (tl (dropWhile (\<lambda>c. c \<noteq> 0x40) t))))" by simp
  have ns: "list_all (\<lambda>c. \<not> is_space c) t"
    using l(1) d(1) u(1) sp by (simp add: assms(7))
  show ?thesis
    unfolding accepted_email_shape_def using cnt tw assms(1) dot ns by simp
qed

lemma parts_of_shape:
  assumes "accepted_email_shape t"
  shows "\<exists>l d u. l \<noteq> [] \<and> list_all not_space_at l \<and> d \<noteq> [] \<and> list_all not_space_at d
        \<and> u \<noteq> [] \<and> list_all not_space_at u \<and> t = l @ 0x40 # d @ 0x2E # u"
proof -
  let ?l = "takeWhile (\<lambda>c. c \<noteq> 0x40) t"
  let ?r = "dropWhile (\<lambda>c. c \<noteq> 0x40) t"
  from assms have cnt: "count_list t 0x40 = 1" and lne: "?l \<noteq> []"
    and dot: "0x2E \<in> set (butlast (tl (tl ?r)))" and ns: "list_all (\<lambda>c. \<not> is_space c) t"
    by (simp_all add: accepted_email_shape_def)
  have t: "t = ?l @ ?r" by simp
  have rne: "?r \<noteq> []"
  proof
    assume e: "?r = []"
    from dot show False unfolding e by simp
  qed
  then have hd: "hd ?r = 0x40" using hd_dropWhile [of "\<lambda>c. c \<noteq> 0x40" t] by simp
  then obtain dom where r: "?r = 0x40 # dom" using rne by (cases ?r) auto
  have l_at: "0x40 \<notin> set ?l" using set_takeWhileD by fastforce
  have "count_list t 0x40 = count_list ?l 0x40 + count_list ?r 0x40"
    by (subst t) (simp only: count_list_append)
  with cnt l_at r have "count_list dom 0x40 = 0" by (simp add: count_list_zero_iff)
  then have dom_at: "0x40 \<notin> set dom" by (simp add: count_list_zero_iff)
  from dot r have dot': "0x2E \<in> set (butlast (tl dom))" by simp
  then obtain x y where xy: "butlast (tl dom) = x @ 0x2E # y" by (auto simp: in_set_conv_decomp)
  have tne: "tl dom \<noteq> []" using dot' by auto
  then have tl: "tl dom = x @ 0x2E # y @ [last (tl dom)]"
    using append_butlast_last_id [OF tne] xy by simp
  have dne: "dom \<noteq> []" using tne by auto
  then obtain d0 where dom: "dom = d0 # x @ 0x2E # y @ [last (tl dom)]"
    using tl by (cases dom) auto
  let ?d = "d0 # x" and ?u = "y @ [last (tl dom)]"
  have whole: "t = ?l @ 0x40 # ?d @ 0x2E # ?u"
    using t r dom by (metis append_Cons)
  have nsl: "list_all (\<lambda>c. \<not> is_space c) ?l" "list_all (\<lambda>c. \<not> is_space c) ?d"
    "list_all (\<lambda>c. \<not> is_space c) ?u"
    using ns by (subst (asm) whole, simp)+
  have atd: "0x40 \<notin> set ?d" "0x40 \<notin> set ?u"
    using dom_at by (subst (asm) dom, simp)+
  have "?l \<noteq> [] \<and> list_all not_space_at ?l \<and> ?d \<noteq> [] \<and> list_all not_space_at ?d
        \<and> ?u \<noteq> [] \<and> list_all not_space_at ?u \<and> t = ?l @ 0x40 # ?d @ 0x2E # ?u"
    using lne nsl atd l_at whole by (simp add: not_space_at_all not_space_at_def)
  then show ?thesis by blast
qed

lemma test_whole_email_shape: "test_whole email_rx t \<longleftrightarrow> accepted_email_shape t"
  using shape_of_parts parts_of_shape unfolding test_whole_email_rx by blast

lemma isEmail_JStr: "isEmail (JStr em) = Inr (test_whole email_rx (trim em))"
  by (simp add: isEmail_def string_or_empty_def trim_def)

section \<open>Properties of the contact handler\<close>

lemma escapeHtml_JStr: "escapeHtml (JStr s) = Inr (escape_text s)"
  by (simp add: escapeHtml_def string_or_empty_def escape_text_Nil)

lemma escapeHtml_opt_val:
  "escapeHtml (opt_val ip) = Inr (escape_text (case ip of None \<Rightarrow> [] | Some s \<Rightarrow> s))"
  by (cases ip) (simp_all add: opt_val_def escapeHtml_JStr escapeHtml_def string_or_empty_def escape_text_Nil)

lemma html_body_escaped: "html_body req n em m = Inr (escaped_html req n em m)"
  by (simp add: html_body_def bind_result_def escapeHtml_JStr escapeHtml_opt_val escaped_html_def)

lemma not_email_Nil: "\<not> test_whole email_rx (trim [])"
  by (simp add: test_whole_def email_rx_def trim_def)

lemma contact_handler_rules:
  assumes "sanitize (req_name req) = Inr n" "sanitize (req_email req) = Inr em"
    "sanitize (req_message req) = Inr m"
  shows "contact_handler e send req =
     (if length n < 2 then respond 400 (Failure name_error) []
      else if isEmail (JStr em) \<noteq> Inr True then respond 400 (Failure email_error) []
      else if length m < 10 then respond 400 (Failure message_error) []
      else deliver e send req n em m)"
proof -
  have n: "(n = [] \<or> length n < 2) = (length n < 2)" by auto
  have m: "(m = [] \<or> length m < 10) = (length m < 10)" by auto
  show ?thesis
    unfolding contact_handler_def assms sum.case n m isEmail_JStr
    using not_email_Nil by auto
qed

lemma createTransporter_configured:
  "(\<exists>tr. createTransporter e = Inr tr)
     \<longleftrightarrow> \<not> unset (SMTP_HOST e) \<and> \<not> unset (SMTP_USER e) \<and> \<not> unset (SMTP_PASS e)"
  by (auto simp: createTransporter_def Let_def)

lemma createTransporter_missing:
  "unset (SMTP_HOST e) \<or> unset (SMTP_USER e) \<or> unset (SMTP_PASS e) \<Longrightarrow>
     createTransporter e = Inl (Error (lit ''Missing SMTP config. Set SMTP_HOST, SMTP_USER, SMTP_PASS (and optionally SMTP_PORT/SMTP_SECURE).''))"
  by (auto simp: createTransporter_def Let_def)

lemma deliver_sent:
  assumes "\<not> unset (CONTACT_TO_EMAIL e)" "createTransporter e = Inr tr"
  shows "deliver e send req n em m =
     (case send tr (compose_mail e req n em m (escaped_html req n em m)) of
        Some err \<Rightarrow> caught err [(tr, compose_mail e req n em m (escaped_html req n em m))]
      | None \<Rightarrow> respond 200 Ok [(tr, compose_mail e req n em m (escaped_html req n em m))])"
  by (simp add: deliver_def assms html_body_escaped Let_def)

lemma error_messages_distinct:
  "distinct [name_error, email_error, message_error, recipient_error, lit ''Failed to send message.'']"
  by (simp add: name_error_def email_error_def message_error_def recipient_error_def lit_def)

lemma email_error_other:
  "recipient_error \<noteq> email_error" "lit ''Failed to send message.'' \<noteq> email_error"
  "message_error \<noteq> email_error" "name_error \<noteq> email_error"
  by (simp_all add: name_error_def email_error_def message_error_def recipient_error_def lit_def)

lemma deliver_status: "status (deliver e send req n em m) \<noteq> 400"
  by (simp add: deliver_def html_body_escaped respond_def caught_def Let_def
      split: sum.splits option.splits)

lemma deliver_body: "body (deliver e send req n em m) \<noteq> Failure email_error"
  by (simp add: deliver_def html_body_escaped respond_def caught_def Let_def email_error_other
      split: sum.splits option.splits)

lemma contact_handler_400: "status (contact_handler e send req) = 400 \<Longrightarrow> sent (contact_handler e send req) = []"
proof (cases "\<exists>n em m. sanitize (req_name req) = Inr n \<and> sanitize (req_email req) = Inr em
    \<and> sanitize (req_message req) = Inr m")
  case True
  then obtain n em m where s: "sanitize (req_name req) = Inr n" "sanitize (req_email req) = Inr em"
    "sanitize (req_message req) = Inr m" by blast
  assume "status (contact_handler e send req) = 400"
  then show ?thesis
    unfolding contact_handler_rules [OF s] using deliver_status [of e send req n em m]
    by (auto simp: respond_def split: if_splits)
next
  case False
  then show ?thesis
    by (auto simp: contact_handler_def caught_def split: sum.splits)
qed

section \<open>The example submission\<close>

lemma sanitize_clean:
  assumes "\<forall>c \<in> set s. \<not> is_crlf c" "s = [] \<or> \<not> is_space (hd s)"
    "s = [] \<or> \<not> is_space (last s)" "length s \<le> 4000"
  shows "sanitize (JStr s) = Inr s"
proof -
  have "replace_crlf_runs s = s" using assms(1) by (rule replace_crlf_runs_free)
  moreover have "trim s = s" using assms(2,3) by (rule trim_fixed)
  ultimately show ?thesis using assms(4) by (simp add: sanitize_JStr sanitize_text_def slice0_def)
qed

lemma example_name: "sanitize (req_name example_request) = Inr (lit ''Jo'')"
  unfolding example_request_def request.simps
  by (rule sanitize_clean) (simp_all add: lit_def is_crlf_def is_space_def js_space_units_def)

lemma example_email: "sanitize (req_email example_request) = Inr (lit ''jo@example.com'')"
  unfolding example_request_def request.simps
  by (rule sanitize_clean) (simp_all add: lit_def is_crlf_def is_space_def js_space_units_def)

lemma example_message:
  "sanitize (req_message example_request) = Inr (lit ''Hello, this is long enough.'')"
  unfolding example_request_def request.simps
  by (rule sanitize_clean) (simp_all add: lit_def is_crlf_def is_space_def js_space_units_def)

lemma trim_example_email: "trim (lit ''jo@example.com'') = lit ''jo@example.com''"
  by (rule trim_fixed) (simp_all add: lit_def is_space_def js_space_units_def)

lemma example_isEmail: "isEmail (JStr (lit ''jo@example.com'')) = Inr True"
proof -
  have "accepted_email_shape (lit ''jo@example.com'')"
    by (simp add: accepted_email_shape_def lit_def is_space_def js_space_units_def)
  then show ?thesis
    by (simp add: isEmail_JStr trim_example_email test_whole_email_shape)
qed

lemma createTransporter_example: "createTransporter example_env = Inr example_transporter"
  by (simp add: createTransporter_def example_env_def example_transporter_def unset_def lit_def)

lemma example_recipient: "\<not> unset (CONTACT_TO_EMAIL example_env)"
  by (simp add: example_env_def unset_def lit_def)

section \<open>Properties of the CORS setup\<close>

lemma cors_allows_configure:
  "cors_allows (configure e) origin \<longleftrightarrow>
     (\<exists>s. origin = Some s
        \<and> (suffix (lit ''.netlify.app'') s
           \<or> s = lit ''http://localhost:5500'' \<or> s = lit ''http://127.0.0.1:5500''))"
proof (cases origin)
  case None
  have "length (lit ''undefined'') < length (lit ''.netlify.app'')" by (simp add: lit_def)
  then have "\<not> suffix (lit ''.netlify.app'') (lit ''undefined'')"
    using suffix_length_le by fastforce
  with None show ?thesis
    by (simp add: cors_allows_def configure_def test_at_end_word template_value_def)
next
  case (Some s)
  then show ?thesis
    by (auto simp: cors_allows_def configure_def test_at_end_word template_value_def)
qed

lemma split_on_plain: "d \<notin> set s \<Longrightarrow> split_on d s = [s]"
  by (induction s) auto

section \<open>Properties of the rate limiter\<close>

lemma windowMs_contactLimiter: "windowMs contactLimiter = 600000" "limit_max contactLimiter = 20"
  by (simp_all add: contactLimiter_def)

lemma limiter_increment_window:
  "limiter_increment opts store key now =
     (store(key \<mapsto>
        \<lparr>total_hits = snd (window_step (windowMs opts) (store_window store key) now),
         reset_time = fst (window_step (windowMs opts) (store_window store key) now)\<rparr>),
      \<lparr>total_hits = snd (window_step (windowMs opts) (store_window store key) now),
       reset_time = fst (window_step (windowMs opts) (store_window store key) now)\<rparr>)"
proof (cases "store key")
  case None
  then show ?thesis by (simp add: limiter_increment_def store_window_def Let_def)
next
  case (Some c)
  obtain h r where c: "c = \<lparr>total_hits = h, reset_time = r\<rparr>" by (cases c) simp
  from Some show ?thesis by (simp add: limiter_increment_def store_window_def Let_def c)
qed

lemma rate_limit_step:
  "snd (rate_limit opts store key now)
     \<longleftrightarrow> snd (window_step (windowMs opts) (store_window store key) now) \<le> limit_max opts"
  "store_window (fst (rate_limit opts store key now)) k
     = (if k = key then window_step (windowMs opts) (store_window store key) now
        else store_window store k)"
  by (simp_all add: rate_limit_def limiter_increment_window store_window_def)

lemma app_request_window:
  "snd (app_request e send store rq) =
     (if http_target rq = Outside then Elsewhere
      else if snd (window_step 600000 (store_window store (req_ip rq)) (http_time rq)) \<le> 20
        then (if http_target rq = PostContact
              then Contact (contact_handler e send (request.truncate rq)) else Elsewhere)
      else TooManyRequests)"
  "store_window (fst (app_request e send store rq)) k =
     (if http_target rq \<noteq> Outside \<and> k = req_ip rq
      then window_step 600000 (store_window store k) (http_time rq)
      else store_window store k)"
proof -
  let ?r = "rate_limit contactLimiter store (req_ip rq) (http_time rq)"
  have ar: "app_request e send store rq =
      (if http_target rq = Outside then (store, Elsewhere)
       else (fst ?r, if snd ?r then (if http_target rq = PostContact
                 then Contact (contact_handler e send (request.truncate rq)) else Elsewhere)
             else TooManyRequests))"
    by (cases ?r) (auto simp: app_request_def)
  note rl = rate_limit_step [of contactLimiter store "req_ip rq" "http_time rq",
      unfolded windowMs_contactLimiter]
  show "snd (app_request e send store rq) =
     (if http_target rq = Outside then Elsewhere
      else if snd (window_step 600000 (store_window store (req_ip rq)) (http_time rq)) \<le> 20
        then (if http_target rq = PostContact
              then Contact (contact_handler e send (request.truncate rq)) else Elsewhere)
      else TooManyRequests)"
    using rl(1) by (simp add: ar)
  show "store_window (fst (app_request e send store rq)) k =
     (if http_target rq \<noteq> Outside \<and> k = req_ip rq
      then window_step 600000 (store_window store k) (http_time rq)
      else store_window store k)"
    using rl(2) [of k] by (auto simp: ar)
qed

lemma app_run_Cons:
  "app_run e send store (rq # rqs)
     = snd (app_request e send store rq) # app_run e send (fst (app_request e send store rq)) rqs"
  by (simp add: split_beta)

lemma length_app_run: "length (app_run e send store rqs) = length rqs"
  by (induction rqs arbitrary: store) (simp_all add: split_beta)

lemma address_times_Cons:
  "address_times k (rq # rqs) =
     (if http_target rq \<noteq> Outside \<and> req_ip rq = k then http_time rq # address_times k rqs
      else address_times k rqs)"
  by (simp add: address_times_def)

lemma app_run_windows:
  assumes "i < length rqs"
  shows "app_run e send store rqs ! i =
     (if http_target (rqs ! i) = Outside then Elsewhere
      else if snd (foldl (window_step 600000) (store_window store (req_ip (rqs ! i)))
                     (address_times (req_ip (rqs ! i)) (take (Suc i) rqs))) \<le> 20
        then (if http_target (rqs ! i) = PostContact
              then Contact (contact_handler e send (request.truncate (rqs ! i))) else Elsewhere)
      else TooManyRequests)"
  using assms
proof (induction rqs arbitrary: store i)
  case Nil
  then show ?case by simp
next
  case (Cons rq rqs)
  show ?case
  proof (cases i)
    case 0
    show ?thesis
      by (simp add: 0 app_run_Cons app_request_window(1) address_times_Cons address_times_def
          del: app_run.simps)
  next
    case (Suc j)
    let ?st = "fst (app_request e send store rq)"
    let ?k = "req_ip (rqs ! j)"
    have j: "j < length rqs" using Cons.prems Suc by simp
    have h: "foldl (window_step 600000) (store_window ?st ?k) (address_times ?k (take (Suc j) rqs))
        = foldl (window_step 600000) (store_window store ?k)
            (address_times ?k (take (Suc (Suc j)) (rq # rqs)))"
      by (auto simp: app_request_window(2) address_times_Cons)
    show ?thesis
      using Cons.IH [OF j, of ?st] unfolding h
      by (simp add: Suc app_run_Cons del: app_run.simps)
  qed
qed

lemma store_window_empty: "store_window Map.empty k = (0, 0)"
  by (simp add: store_window_def)

lemma window_snoc:
  "window_end w (ts @ [t]) = (if t < window_end w ts then window_end w ts else t + w)"
  "window_ordinal w (ts @ [t]) = (if t < window_end w ts then Suc (window_ordinal w ts) else 1)"
  by (cases "foldl (window_step w) (0, 0) ts"; simp add: window_end_def window_ordinal_def)+

lemma window_inside:
  "t < ends \<Longrightarrow> foldl (window_step w) (ends, n) (replicate k t) = (ends, n + k)"
  by (induction k arbitrary: n) simp_all

lemma window_opened:
  assumes "ends \<le> t" "0 < w"
  shows "foldl (window_step w) (ends, n) (replicate (Suc k) t) = (t + w, Suc k)"
proof -
  have "foldl (window_step w) (ends, n) (replicate (Suc k) t)
      = foldl (window_step w) (t + w, 1) (replicate k t)"
    using assms(1) by simp
  also have "\<dots> = (t + w, 1 + k)" using assms(2) by (intro window_inside) simp
  finally show ?thesis by simp
qed

lemma example_post_fields:
  "http_target example_post = PostContact" "http_time example_post = 0"
  "req_ip example_post = Some (lit ''203.0.113.7'')"
  by (simp_all add: example_post_def)

text \<open>
  The windows of two addresses are independent: one request of another address at time
  0, then 20 requests of the example's address at 300000 and one at 700000, which lies
  in the window that this address opened at 300000 and is its 21st request there.
\<close>

lemma own_window_example:
  "app_run example_env (\<lambda>_ _. None) Map.empty
     (example_post\<lparr>req_ip := Some (lit ''198.51.100.1'')\<rparr>
        # replicate 20 (example_post\<lparr>http_time := 300000\<rparr>)
        @ [example_post\<lparr>http_time := 700000\<rparr>]) ! 21
     = TooManyRequests"
proof -
  let ?o = "example_post\<lparr>req_ip := Some (lit ''198.51.100.1'')\<rparr>"
    and ?a = "example_post\<lparr>http_time := 300000\<rparr>"
    and ?b = "example_post\<lparr>http_time := 700000\<rparr>"
  let ?rqs = "?o # replicate 20 ?a @ [?b]"
  note f = example_post_fields
  have ne: "Some (lit ''198.51.100.1'') \<noteq> req_ip example_post" by (simp add: f lit_def)
  have n: "?rqs ! 21 = ?b" by (simp add: nth_append)
  have tk: "take (Suc 21) ?rqs = ?rqs" by simp
  have r: "req_ip ?b = req_ip example_post" "http_target ?b = PostContact" by (simp_all add: f)
  have times: "address_times (req_ip example_post) ?rqs = replicate (Suc 19) 300000 @ [700000]"
    using ne by (simp add: address_times_def f del: replicate_Suc)
  have "foldl (window_step 600000) (0, 0) (replicate (Suc 19) 300000) = (300000 + 600000, Suc 19)"
    by (rule window_opened) simp_all
  then have o: "snd (foldl (window_step 600000) (0, 0) (replicate (Suc 19) 300000 @ [700000])) = 21"
    by (simp only: foldl_append) simp
  show ?thesis
    by (subst app_run_windows) (simp_all only: length_Cons length_append length_replicate
        n tk r times store_window_empty o, simp_all)
qed

section \<open>Claims about escapeHtml\<close>

text \<open>
  Claim C10, as amended. For every input value that ToString converts without
  throwing (every absent, primitive or string value, and every array or object free
  of an own key \<open>toString\<close>), \<open>escapeHtml\<close> returns the text of \<open>String(str || "")\<close>
  with each \<open>&\<close>, \<open><\<close>, \<open>>\<close>, double quote and single quote replaced by
  \<open>&amp;\<close>, \<open>&lt;\<close>, \<open>&gt;\<close>, \<open>&quot;\<close> and \<open>&#039;\<close>; the result holds none of
  \<open><\<close>, \<open>>\<close>, double quote and single quote; an absent input gives the empty string.
\<close>

theorem escapeHtml_entities:
  "convertible v \<Longrightarrow>
     (\<exists>s. string_or_empty v = Inr s
         \<and> escapeHtml v = Inr (concat (map html_entity s))
         \<and> set (concat (map html_entity s)) \<inter> {0x3C, 0x3E, 0x22, 0x27} = {})
     \<and> escapeHtml JUndefined = Inr []"
proof -
  assume "convertible v"
  then obtain s where s: "string_or_empty v = Inr s" using string_or_empty_convertible by blast
  have "escapeHtml v = Inr (concat (map html_entity s))"
    by (simp add: escapeHtml_def s escape_text_entities)
  moreover have "set (concat (map html_entity s)) \<inter> {0x3C, 0x3E, 0x22, 0x27} = {}"
    using escape_text_safe [of s] by (simp only: escape_text_entities)
  moreover have "escapeHtml JUndefined = Inr []"
    by (simp add: escapeHtml_def string_or_empty_def escape_text_Nil)
  ultimately show ?thesis using s by blast
qed

text \<open>The theorem at the text \<open><a&b>\<close>.\<close>

theorem escapeHtml_entities_witness:
  "convertible (JStr (lit ''<a&b>''))
   \<and> escapeHtml (JStr (lit ''<a&b>'')) = Inr (lit ''&lt;a&amp;b&gt;'')
   \<and> escapeHtml JUndefined = Inr []"
proof -
  have c: "convertible (JStr (lit ''<a&b>''))" by simp
  have s: "string_or_empty (JStr (lit ''<a&b>'')) = Inr (lit ''<a&b>'')"
    by (simp add: string_or_empty_def lit_def)
  have "concat (map html_entity (lit ''<a&b>'')) = lit ''&lt;a&amp;b&gt;''"
    by (simp add: html_entity_def lit_def)
  then show ?thesis using escapeHtml_entities [OF c] s c by auto
qed

text \<open>
  The claim as it was stated covers every input value. An object with an own key
  \<open>toString\<close>, such as the parsed JSON text \<open>{"toString": 1}\<close>, is truthy, and
  \<open>String\<close> throws a TypeError on it: \<open>escapeHtml\<close> returns no string there.
\<close>

theorem escapeHtml_throws_counterexample:
  "escapeHtml (JObj [(lit ''toString'', JNum (lit ''1''))])
     = Inl (TypeError (lit ''Cannot convert object to primitive value''))"
  by (simp add: escapeHtml_def string_or_empty_def)

section \<open>Claims about sanitize\<close>

text \<open>
  Claim C3, as amended. For every input value that ToString converts without
  throwing, \<open>sanitize\<close> returns the text of \<open>String(str || "")\<close> with every maximal
  run of carriage returns and line feeds replaced by one space
  (\<open>replace_crlf_runs_append_free\<close>, \<open>replace_crlf_runs_run\<close>), then trimmed of white
  space at both ends, then cut to its first 4000 code units. The result has at most
  4000 code units, and exactly 4000 when the replaced and trimmed text is longer than
  that; it holds no carriage return and no line feed; it does not start with white
  space, and does not end with white space unless it was cut. An absent input gives the
  empty string.
\<close>

theorem sanitize_pipeline:
  "convertible v \<Longrightarrow>
     (\<exists>s t. string_or_empty v = Inr s
        \<and> sanitize v = Inr t
        \<and> t = slice0 4000 (trim (replace_crlf_runs s))
        \<and> length t \<le> 4000
        \<and> (4000 < length (trim (replace_crlf_runs s)) \<longrightarrow> length t = 4000)
        \<and> 0x0D \<notin> set t \<and> 0x0A \<notin> set t
        \<and> (t = [] \<or> \<not> is_space (hd t))
        \<and> (length (trim (replace_crlf_runs s)) \<le> 4000 \<longrightarrow> t = [] \<or> \<not> is_space (last t)))
     \<and> sanitize JUndefined = Inr []"
proof -
  assume "convertible v"
  then obtain s where s: "string_or_empty v = Inr s" using string_or_empty_convertible by blast
  let ?t = "sanitize_text s"
  have 1: "sanitize v = Inr ?t" by (simp add: sanitize_def s)
  have 2: "?t = slice0 4000 (trim (replace_crlf_runs s))" by (simp add: sanitize_text_def)
  have 3: "length ?t \<le> 4000" by (rule sanitize_text_length)
  have 4: "4000 < length (trim (replace_crlf_runs s)) \<longrightarrow> length ?t = 4000"
    using sanitize_text_truncated by blast
  have 5: "0x0D \<notin> set ?t \<and> 0x0A \<notin> set ?t"
    using sanitize_text_no_crlf [of _ s] is_crlf_iff by blast
  have 6: "?t = [] \<or> \<not> is_space (hd ?t)" using sanitize_text_no_leading by blast
  have 7: "length (trim (replace_crlf_runs s)) \<le> 4000 \<longrightarrow> ?t = [] \<or> \<not> is_space (last ?t)"
    using sanitize_text_untruncated [of s] trim_no_trailing [of "replace_crlf_runs s"] by auto
  have 8: "sanitize JUndefined = Inr []"
    by (simp add: sanitize_def string_or_empty_def sanitize_text_Nil)
  from s 1 2 3 4 5 6 7 8 show ?thesis by blast
qed

text \<open>The theorem at the text \<open>"  a\r\n\nb  "\<close>, which becomes \<open>"a b"\<close>.\<close>

theorem sanitize_pipeline_witness:
  "convertible (JStr (lit ''  a'' @ [0x0D, 0x0A, 0x0A] @ lit ''b  ''))
   \<and> sanitize (JStr (lit ''  a'' @ [0x0D, 0x0A, 0x0A] @ lit ''b  '')) = Inr (lit ''a b'')
   \<and> sanitize JUndefined = Inr []"
proof -
  let ?v = "JStr (lit ''  a'' @ [0x0D, 0x0A, 0x0A] @ lit ''b  '')"
  have c: "convertible ?v" by simp
  have s: "string_or_empty ?v = Inr (lit ''  a'' @ [0x0D, 0x0A, 0x0A] @ lit ''b  '')"
    by (simp add: string_or_empty_def lit_def)
  have r: "replace_crlf_runs (lit ''  a'' @ [0x0D, 0x0A, 0x0A] @ lit ''b  '') = lit ''  a b  ''"
    by (simp add: lit_def is_crlf_def)
  have t: "trim (lit ''  a b  '') = lit ''a b''"
    by (simp add: trim_def lit_def is_space_def js_space_units_def)
  have "slice0 4000 (lit ''a b'') = lit ''a b''" by (simp add: slice0_def lit_def)
  with sanitize_pipeline [OF c] s r t c show ?thesis by auto
qed

text \<open>
  The claim as it was stated fails in two places. A field longer than 4000 is not
  always cut to exactly 4000: 4001 spaces are trimmed to the empty string. And
  \<open>sanitize\<close> can fail: on an object with an own key \<open>toString\<close>, \<open>String\<close> throws a
  TypeError (which the handler's \<open>catch\<close> turns into the response 500).
\<close>

theorem sanitize_counterexample:
  "4000 < length (replicate 4001 (0x20 :: jschar))
   \<and> sanitize (JStr (replicate 4001 0x20)) = Inr []
   \<and> sanitize (JObj [(lit ''toString'', JNum (lit ''1''))])
       = Inl (TypeError (lit ''Cannot convert object to primitive value''))"
proof -
  have "replace_crlf_runs (replicate 4001 0x20) = replicate 4001 0x20"
    by (rule replace_crlf_runs_free) (simp add: is_crlf_def)
  moreover have "dropWhile is_space (replicate 4001 0x20) = []"
    by (simp add: dropWhile_eq_Nil_conv is_space_def js_space_units_def)
  ultimately have "sanitize_text (replicate 4001 0x20) = []"
    by (simp add: sanitize_text_def slice0_def trim_def)
  then have "sanitize (JStr (replicate 4001 0x20)) = Inr []" by (simp add: sanitize_JStr)
  moreover have "sanitize (JObj [(lit ''toString'', JNum (lit ''1''))])
       = Inl (TypeError (lit ''Cannot convert object to primitive value''))"
    by (simp add: sanitize_def string_or_empty_def)
  ultimately show ?thesis by simp
qed

text \<open>
  Claim C5, as amended. Sanitizing a sanitized text trims it: \<open>sanitize(sanitize(s))\<close>
  is \<open>sanitize(s).trim()\<close>. It is \<open>sanitize(s)\<close> again exactly when \<open>sanitize(s)\<close> is
  empty or does not end with white space, and in particular whenever \<open>sanitize(s)\<close>
  has fewer than 4000 code units, that is, whenever nothing was cut.
\<close>

theorem sanitize_again:
  "sanitize v = Inr t \<Longrightarrow>
     sanitize (JStr t) = Inr (trim t)
     \<and> (sanitize (JStr t) = Inr t \<longleftrightarrow> t = [] \<or> \<not> is_space (last t))
     \<and> (length t < 4000 \<longrightarrow> sanitize (JStr t) = Inr t)"
proof -
  assume "sanitize v = Inr t"
  then obtain s where t: "t = sanitize_text s" using sanitize_Inr by blast
  have 1: "sanitize (JStr t) = Inr (trim t)"
    by (simp add: sanitize_JStr t sanitize_text_twice)
  have lead: "t = [] \<or> \<not> is_space (hd t)" unfolding t using sanitize_text_no_leading by blast
  have 2: "trim t = t \<longleftrightarrow> t = [] \<or> \<not> is_space (last t)"
    using lead by (auto simp: trim_eq_iff)
  have 3: "trim t = t" if "length t < 4000"
  proof -
    from that have "t = trim (replace_crlf_runs s)" unfolding t by (rule sanitize_text_short)
    then show ?thesis using trim_idem [of "replace_crlf_runs s"] by simp
  qed
  from 1 2 3 show ?thesis by simp
qed

text \<open>The theorem at the text \<open>" a b "\<close>.\<close>

theorem sanitize_again_witness:
  "sanitize (JStr (lit '' a b '')) = Inr (lit ''a b'')
   \<and> sanitize (JStr (lit ''a b'')) = Inr (lit ''a b'')"
proof -
  have r: "replace_crlf_runs (lit '' a b '') = lit '' a b ''"
    by (simp add: lit_def is_crlf_def)
  have t: "trim (lit '' a b '') = lit ''a b''"
    by (simp add: trim_def lit_def is_space_def js_space_units_def)
  have s: "sanitize (JStr (lit '' a b '')) = Inr (lit ''a b'')"
    by (simp add: sanitize_JStr sanitize_text_def slice0_def r t) (simp add: lit_def)
  have "length (lit ''a b'') < 4000" by (simp add: lit_def)
  with sanitize_again [OF s] s show ?thesis by blast
qed

text \<open>
  Sanitizing is not idempotent on every string. The text of 3999 letters \<open>a\<close>, a
  space and a letter \<open>b\<close> has 4001 code units; it is cut after the space, and
  sanitizing the result again trims that space.
\<close>

theorem sanitize_not_idempotent_counterexample:
  "sanitize (JStr (replicate 3999 0x61 @ [0x20, 0x62])) = Inr (replicate 3999 0x61 @ [0x20])
   \<and> sanitize (JStr (replicate 3999 0x61 @ [0x20])) = Inr (replicate 3999 0x61)
   \<and> sanitize (JStr (replicate 3999 0x61 @ [0x20])) \<noteq> Inr (replicate 3999 0x61 @ [0x20])"
proof -
  let ?a = "replicate 3999 (0x61 :: jschar)"
  have na: "\<not> is_space 0x61" "\<not> is_space 0x62"
    by (simp_all add: is_space_def js_space_units_def)
  have sp: "is_space 0x20" by (simp add: is_space_def js_space_units_def)
  have r1: "replace_crlf_runs (?a @ [0x20, 0x62]) = ?a @ [0x20, 0x62]"
    by (rule replace_crlf_runs_free) (auto simp: is_crlf_def)
  have t1: "trim (?a @ [0x20, 0x62]) = ?a @ [0x20, 0x62]"
    by (rule trim_fixed) (simp_all add: na hd_append)
  have k1: "slice0 4000 (?a @ [0x20, 0x62]) = ?a @ [0x20]"
    by (simp add: slice0_def)
  have s1: "sanitize_text (?a @ [0x20, 0x62]) = ?a @ [0x20]"
    by (simp only: sanitize_text_def r1 t1 k1)
  have r2: "replace_crlf_runs (?a @ [0x20]) = ?a @ [0x20]"
    by (rule replace_crlf_runs_free) (auto simp: is_crlf_def)
  have "dropWhile is_space ?a = ?a"
    by (rule dropWhile_eq_self_iff [THEN iffD2]) (simp add: na)
  moreover have "dropWhile is_space (rev ?a) = rev ?a"
    by (rule dropWhile_eq_self_iff [THEN iffD2]) (simp add: na)
  ultimately have t2: "trim (?a @ [0x20]) = ?a"
    by (simp add: trim_def dropWhile_append sp na)
  have s2: "sanitize_text (?a @ [0x20]) = ?a"
    by (simp add: sanitize_text_def r2 t2 slice0_def)
  have ne: "?a \<noteq> ?a @ [0x20]" by simp
  show ?thesis using s1 s2 ne by (simp only: sanitize_JStr sum.inject) simp
qed

section \<open>Claims about the contact handler\<close>

text \<open>
  Claim C1, as amended. For every submission whose sanitized name, email and message
  meet the minimums (name of length at least 2, email accepted by \<open>isEmail\<close>, message
  of length at least 10), with the recipient address configured, the relay host and
  credentials configured (\<open>createTransporter\<close> returns a transporter) and the send
  succeeding, the handler responds 200 with the body \<open>{ok: true}\<close>, calls \<open>sendMail\<close>
  exactly once and logs nothing. The mail of that call has the HTML body built from the
  escaped values, the text body built from the values as they are, and the sanitized
  email as its reply-to address.
\<close>

theorem contact_success:
  assumes "sanitize (req_name req) = Inr n" "sanitize (req_email req) = Inr em"
    "sanitize (req_message req) = Inr m"
    and "2 \<le> length n" "isEmail (JStr em) = Inr True" "10 \<le> length m"
    and "\<not> unset (CONTACT_TO_EMAIL e)" "createTransporter e = Inr tr"
    and "send tr (compose_mail e req n em m (escaped_html req n em m)) = None"
  shows "contact_handler e send req =
           \<lparr>status = 200, body = Ok,
            sent = [(tr, compose_mail e req n em m (escaped_html req n em m))], logged = []\<rparr>
         \<and> mail_html (compose_mail e req n em m (escaped_html req n em m)) = escaped_html req n em m
         \<and> mail_text (compose_mail e req n em m (escaped_html req n em m)) = text_body req n em m
         \<and> mail_replyTo (compose_mail e req n em m (escaped_html req n em m)) = em"
proof -
  have "contact_handler e send req = deliver e send req n em m"
    using assms(4-6) by (simp add: contact_handler_rules [OF assms(1-3)])
  also have "\<dots> = respond 200 Ok [(tr, compose_mail e req n em m (escaped_html req n em m))]"
    by (simp only: deliver_sent [OF assms(7,8)] assms(9) option.case)
  finally have "contact_handler e send req =
      \<lparr>status = 200, body = Ok,
       sent = [(tr, compose_mail e req n em m (escaped_html req n em m))], logged = []\<rparr>"
    by (simp only: respond_def)
  moreover have
    "mail_html (compose_mail e req n em m (escaped_html req n em m)) = escaped_html req n em m"
    "mail_text (compose_mail e req n em m (escaped_html req n em m)) = text_body req n em m"
    "mail_replyTo (compose_mail e req n em m (escaped_html req n em m)) = em"
    by (simp_all add: compose_mail_def)
  ultimately show ?thesis by blast
qed

text \<open>
  The theorem at the example of the specification: name \<open>Jo\<close>, email
  \<open>jo@example.com\<close>, message \<open>Hello, this is long enough.\<close>
\<close>

theorem contact_success_witness:
  "contact_handler example_env (\<lambda>_ _. None) example_request =
     \<lparr>status = 200, body = Ok,
      sent = [(example_transporter,
               compose_mail example_env example_request (lit ''Jo'') (lit ''jo@example.com'')
                 (lit ''Hello, this is long enough.'')
                 (escaped_html example_request (lit ''Jo'') (lit ''jo@example.com'')
                    (lit ''Hello, this is long enough.'')))],
      logged = []\<rparr>
   \<and> mail_replyTo
        (compose_mail example_env example_request (lit ''Jo'') (lit ''jo@example.com'')
           (lit ''Hello, this is long enough.'')
           (escaped_html example_request (lit ''Jo'') (lit ''jo@example.com'')
              (lit ''Hello, this is long enough.''))) = lit ''jo@example.com''"
proof -
  have n: "2 \<le> length (lit ''Jo'')" and m: "10 \<le> length (lit ''Hello, this is long enough.'')"
    by (simp_all add: lit_def)
  have s: "(\<lambda>_ _. None) example_transporter
      (compose_mail example_env example_request (lit ''Jo'') (lit ''jo@example.com'')
         (lit ''Hello, this is long enough.'')
         (escaped_html example_request (lit ''Jo'') (lit ''jo@example.com'')
            (lit ''Hello, this is long enough.''))) = (None :: jserror option)"
    by simp
  from contact_success [OF example_name example_email example_message n example_isEmail m
      example_recipient createTransporter_example s]
  show ?thesis by blast
qed

text \<open>
  The claim as it was stated asks only for valid fields and a configured recipient.
  With \<open>SMTP_HOST\<close> not set, \<open>createTransporter\<close> throws: the same submission gets
  the response 500 and \<open>sendMail\<close> is never called.
\<close>

theorem contact_unconfigured_relay_counterexample:
  "sanitize (req_name example_request) = Inr (lit ''Jo'')
   \<and> sanitize (req_email example_request) = Inr (lit ''jo@example.com'')
   \<and> sanitize (req_message example_request) = Inr (lit ''Hello, this is long enough.'')
   \<and> 2 \<le> length (lit ''Jo'')
   \<and> isEmail (JStr (lit ''jo@example.com'')) = Inr True
   \<and> 10 \<le> length (lit ''Hello, this is long enough.'')
   \<and> \<not> unset (CONTACT_TO_EMAIL (example_env\<lparr>SMTP_HOST := None\<rparr>))
   \<and> status (contact_handler (example_env\<lparr>SMTP_HOST := None\<rparr>) (\<lambda>_ _. None) example_request) = 500
   \<and> sent (contact_handler (example_env\<lparr>SMTP_HOST := None\<rparr>) (\<lambda>_ _. None) example_request) = []"
proof -
  let ?e = "example_env\<lparr>SMTP_HOST := None\<rparr>"
  have n: "2 \<le> length (lit ''Jo'')" and m: "10 \<le> length (lit ''Hello, this is long enough.'')"
    by (simp_all add: lit_def)
  have r: "\<not> unset (CONTACT_TO_EMAIL ?e)" using example_recipient by simp
  have "unset (SMTP_HOST ?e)" by (simp add: unset_def)
  then have c: "createTransporter ?e = Inl (Error (lit ''Missing SMTP config. Set SMTP_HOST, SMTP_USER, SMTP_PASS (and optionally SMTP_PORT/SMTP_SECURE).''))"
    by (intro createTransporter_missing) simp
  have "contact_handler ?e (\<lambda>_ _. None) example_request
      = deliver ?e (\<lambda>_ _. None) example_request (lit ''Jo'') (lit ''jo@example.com'')
          (lit ''Hello, this is long enough.'')"
    using n m example_isEmail
    by (simp add: contact_handler_rules [OF example_name example_email example_message])
  also have "\<dots> = caught (Error (lit ''Missing SMTP config. Set SMTP_HOST, SMTP_USER, SMTP_PASS (and optionally SMTP_PORT/SMTP_SECURE).'')) []"
    using r by (simp add: deliver_def c)
  finally have "status (contact_handler ?e (\<lambda>_ _. None) example_request) = 500"
    and "sent (contact_handler ?e (\<lambda>_ _. None) example_request) = []"
    by (simp_all add: caught_def)
  with example_name example_email example_message n m example_isEmail r show ?thesis by blast
qed

text \<open>
  Claim C2. On the sanitized fields the rules are applied in the order name, email,
  message, and the first rule that fails decides the response: status 400 with that
  rule's message, whatever the later fields are, with no call of \<open>sendMail\<close> and
  nothing logged. The three messages differ from each other, and no response with
  status 400 comes with a call of \<open>sendMail\<close>.
\<close>

theorem validation_order:
  assumes "sanitize (req_name req) = Inr n" "sanitize (req_email req) = Inr em"
    "sanitize (req_message req) = Inr m"
  shows "(length n < 2 \<longrightarrow>
            contact_handler e send req =
              \<lparr>status = 400, body = Failure name_error, sent = [], logged = []\<rparr>)
       \<and> (2 \<le> length n \<and> isEmail (JStr em) \<noteq> Inr True \<longrightarrow>
            contact_handler e send req =
              \<lparr>status = 400, body = Failure email_error, sent = [], logged = []\<rparr>)
       \<and> (2 \<le> length n \<and> isEmail (JStr em) = Inr True \<and> length m < 10 \<longrightarrow>
            contact_handler e send req =
              \<lparr>status = 400, body = Failure message_error, sent = [], logged = []\<rparr>)
       \<and> distinct [name_error, email_error, message_error]
       \<and> (status (contact_handler e send req) = 400 \<longrightarrow> sent (contact_handler e send req) = [])"
proof -
  have "distinct [name_error, email_error, message_error]"
    using error_messages_distinct by simp
  moreover have
    "status (contact_handler e send req) = 400 \<longrightarrow> sent (contact_handler e send req) = []"
    using contact_handler_400 by blast
  ultimately show ?thesis
    by (simp add: contact_handler_rules [OF assms] respond_def)
qed

text \<open>
  The theorem at the name \<open>A\<close>, of length 1.
\<close>

theorem validation_order_witness:
  "sanitize (req_name (example_request\<lparr>req_name := JStr (lit ''A'')\<rparr>)) = Inr (lit ''A'')
   \<and> length (lit ''A'') < 2
   \<and> contact_handler example_env (\<lambda>_ _. None) (example_request\<lparr>req_name := JStr (lit ''A'')\<rparr>)
       = \<lparr>status = 400, body = Failure name_error, sent = [], logged = []\<rparr>"
proof -
  let ?r = "example_request\<lparr>req_name := JStr (lit ''A'')\<rparr>"
  have "sanitize (JStr (lit ''A'')) = Inr (lit ''A'')"
    by (rule sanitize_clean) (simp_all add: lit_def is_crlf_def is_space_def js_space_units_def)
  then have n: "sanitize (req_name ?r) = Inr (lit ''A'')" by simp
  have em: "sanitize (req_email ?r) = Inr (lit ''jo@example.com'')"
    using example_email by simp
  have m: "sanitize (req_message ?r) = Inr (lit ''Hello, this is long enough.'')"
    using example_message by simp
  have l: "length (lit ''A'') < 2" by (simp add: lit_def)
  from validation_order [OF n em m, of example_env "\<lambda>_ _. None"] n l show ?thesis by blast
qed

text \<open>
  Claim C4, as amended. \<open>isEmail\<close> accepts a sanitized email exactly when, trimmed
  of white space at both ends, it holds exactly one \<open>@\<close> with at least one character
  before it, a \<open>.\<close> after the \<open>@\<close> that is neither the character next to the \<open>@\<close>
  nor the last character, and no white space. When the name rule has passed, every
  other email is rejected with status 400 and the email message, and no accepted email
  is.
\<close>

theorem email_rule:
  assumes "sanitize (req_name req) = Inr n" "sanitize (req_email req) = Inr em"
    "sanitize (req_message req) = Inr m" and "2 \<le> length n"
  shows "isEmail (JStr em) = Inr (accepted_email_shape (trim em))
       \<and> (\<not> accepted_email_shape (trim em) \<longrightarrow>
            contact_handler e send req =
              \<lparr>status = 400, body = Failure email_error, sent = [], logged = []\<rparr>)
       \<and> (accepted_email_shape (trim em) \<longrightarrow>
            body (contact_handler e send req) \<noteq> Failure email_error)"
proof -
  have 1: "isEmail (JStr em) = Inr (accepted_email_shape (trim em))"
    by (simp add: isEmail_JStr test_whole_email_shape)
  have 2: "contact_handler e send req =
      \<lparr>status = 400, body = Failure email_error, sent = [], logged = []\<rparr>"
    if "\<not> accepted_email_shape (trim em)"
    using that assms(4) by (simp add: contact_handler_rules [OF assms(1-3)] 1 respond_def)
  have 3: "body (contact_handler e send req) \<noteq> Failure email_error"
    if "accepted_email_shape (trim em)"
    using that assms(4) deliver_body [of e send req n em m]
    by (simp add: contact_handler_rules [OF assms(1-3)] 1 respond_def email_error_other)
  from 1 2 3 show ?thesis by blast
qed

text \<open>
  The theorem at the email \<open>not-an-email\<close>.
\<close>

theorem email_rule_witness:
  "\<not> accepted_email_shape (trim (lit ''not-an-email''))
   \<and> contact_handler example_env (\<lambda>_ _. None)
        (example_request\<lparr>req_email := JStr (lit ''not-an-email'')\<rparr>)
       = \<lparr>status = 400, body = Failure email_error, sent = [], logged = []\<rparr>"
proof -
  let ?r = "example_request\<lparr>req_email := JStr (lit ''not-an-email'')\<rparr>"
  have n: "sanitize (req_name ?r) = Inr (lit ''Jo'')" using example_name by simp
  have "sanitize (JStr (lit ''not-an-email'')) = Inr (lit ''not-an-email'')"
    by (rule sanitize_clean) (simp_all add: lit_def is_crlf_def is_space_def js_space_units_def)
  then have em: "sanitize (req_email ?r) = Inr (lit ''not-an-email'')" by simp
  have m: "sanitize (req_message ?r) = Inr (lit ''Hello, this is long enough.'')"
    using example_message by simp
  have l: "2 \<le> length (lit ''Jo'')" by (simp add: lit_def)
  have "trim (lit ''not-an-email'') = lit ''not-an-email''"
    by (rule trim_fixed) (simp_all add: lit_def is_space_def js_space_units_def)
  moreover have "\<not> accepted_email_shape (lit ''not-an-email'')"
    by (simp add: accepted_email_shape_def lit_def)
  ultimately have s: "\<not> accepted_email_shape (trim (lit ''not-an-email''))" by simp
  from email_rule [OF n em m l, of example_env "\<lambda>_ _. None"] s show ?thesis by blast
qed

text \<open>
  The shape as the claim stated it (exactly one \<open>@\<close>, at least one \<open>.\<close> after it, no
  white space) is not enough: \<open>a@b.\<close> has that shape, and \<open>isEmail\<close> rejects it,
  because the regular expression wants a character after the \<open>.\<close>.
\<close>

theorem email_shape_counterexample:
  "lit ''a@b.'' \<noteq> []
   \<and> described_email_shape (lit ''a@b.'')
   \<and> isEmail (JStr (lit ''a@b.'')) = Inr False"
proof -
  have t: "trim (lit ''a@b.'') = lit ''a@b.''"
    by (rule trim_fixed) (simp_all add: lit_def is_space_def js_space_units_def)
  have "\<not> accepted_email_shape (lit ''a@b.'')"
    by (simp add: accepted_email_shape_def lit_def)
  then have "isEmail (JStr (lit ''a@b.'')) = Inr False"
    by (simp add: isEmail_JStr t test_whole_email_shape)
  moreover have "described_email_shape (lit ''a@b.'')"
    by (simp add: described_email_shape_def lit_def is_space_def js_space_units_def)
  moreover have "lit ''a@b.'' \<noteq> []" by (simp add: lit_def)
  ultimately show ?thesis by blast
qed

text \<open>
  Claim C6, as amended. For every request with valid fields: when the recipient address
  is not set, the handler responds 500 with the message
  \<open>Server not configured: CONTACT_TO_EMAIL missing.\<close>, without calling \<open>sendMail\<close> and
  without logging; when the recipient is set and the relay host, user or password is
  not, the handler responds 500 with the message \<open>Failed to send message.\<close>, without
  calling \<open>sendMail\<close>, and logs the error that \<open>createTransporter\<close> threw.
\<close>

theorem configuration_errors:
  assumes "sanitize (req_name req) = Inr n" "sanitize (req_email req) = Inr em"
    "sanitize (req_message req) = Inr m"
    and "2 \<le> length n" "isEmail (JStr em) = Inr True" "10 \<le> length m"
  shows "(unset (CONTACT_TO_EMAIL e) \<longrightarrow>
            contact_handler e send req =
              \<lparr>status = 500, body = Failure recipient_error, sent = [], logged = []\<rparr>)
       \<and> (\<not> unset (CONTACT_TO_EMAIL e)
            \<and> (unset (SMTP_HOST e) \<or> unset (SMTP_USER e) \<or> unset (SMTP_PASS e)) \<longrightarrow>
            contact_handler e send req =
              \<lparr>status = 500, body = Failure (lit ''Failed to send message.''), sent = [],
               logged = [Error (lit ''Missing SMTP config. Set SMTP_HOST, SMTP_USER, SMTP_PASS (and optionally SMTP_PORT/SMTP_SECURE).'')]\<rparr>)"
proof -
  have d: "contact_handler e send req = deliver e send req n em m"
    using assms(4-6) by (simp add: contact_handler_rules [OF assms(1-3)])
  have 1: "deliver e send req n em m =
      \<lparr>status = 500, body = Failure recipient_error, sent = [], logged = []\<rparr>"
    if "unset (CONTACT_TO_EMAIL e)"
    using that by (simp add: deliver_def respond_def)
  have 2: "deliver e send req n em m =
      \<lparr>status = 500, body = Failure (lit ''Failed to send message.''), sent = [],
       logged = [Error (lit ''Missing SMTP config. Set SMTP_HOST, SMTP_USER, SMTP_PASS (and optionally SMTP_PORT/SMTP_SECURE).'')]\<rparr>"
    if "\<not> unset (CONTACT_TO_EMAIL e)"
      "unset (SMTP_HOST e) \<or> unset (SMTP_USER e) \<or> unset (SMTP_PASS e)"
    using that(1) by (simp add: deliver_def createTransporter_missing [OF that(2)] caught_def)
  from 1 2 show ?thesis unfolding d by blast
qed

text \<open>
  The theorem at the example submission with an empty \<open>SMTP_PASS\<close>.
\<close>

theorem configuration_errors_witness:
  "unset (SMTP_PASS (example_env\<lparr>SMTP_PASS := Some []\<rparr>))
   \<and> contact_handler (example_env\<lparr>SMTP_PASS := Some []\<rparr>) (\<lambda>_ _. None) example_request =
       \<lparr>status = 500, body = Failure (lit ''Failed to send message.''), sent = [],
        logged = [Error (lit ''Missing SMTP config. Set SMTP_HOST, SMTP_USER, SMTP_PASS (and optionally SMTP_PORT/SMTP_SECURE).'')]\<rparr>"
proof -
  let ?e = "example_env\<lparr>SMTP_PASS := Some []\<rparr>"
  have n: "2 \<le> length (lit ''Jo'')" and m: "10 \<le> length (lit ''Hello, this is long enough.'')"
    by (simp_all add: lit_def)
  have r: "\<not> unset (CONTACT_TO_EMAIL ?e)" using example_recipient by simp
  have p: "unset (SMTP_PASS ?e)" by (simp add: unset_def)
  from configuration_errors [OF example_name example_email example_message n example_isEmail m,
      of ?e "\<lambda>_ _. None"] r p
  show ?thesis by blast
qed

text \<open>
  The claim as it was stated has every configuration error answered by a generic
  message, with the cause logged and kept from the client. For a missing recipient the
  response names the missing variable, and the handler logs nothing.
\<close>

theorem recipient_error_counterexample:
  "unset (CONTACT_TO_EMAIL (example_env\<lparr>CONTACT_TO_EMAIL := None\<rparr>))
   \<and> body (contact_handler (example_env\<lparr>CONTACT_TO_EMAIL := None\<rparr>) (\<lambda>_ _. None) example_request)
       = Failure (lit ''Server not configured: CONTACT_TO_EMAIL missing.'')
   \<and> logged (contact_handler (example_env\<lparr>CONTACT_TO_EMAIL := None\<rparr>) (\<lambda>_ _. None) example_request)
       = []"
proof -
  let ?e = "example_env\<lparr>CONTACT_TO_EMAIL := None\<rparr>"
  have n: "2 \<le> length (lit ''Jo'')" and m: "10 \<le> length (lit ''Hello, this is long enough.'')"
    by (simp_all add: lit_def)
  have u: "unset (CONTACT_TO_EMAIL ?e)" by (simp add: unset_def)
  have "contact_handler ?e (\<lambda>_ _. None) example_request
      = deliver ?e (\<lambda>_ _. None) example_request (lit ''Jo'') (lit ''jo@example.com'')
          (lit ''Hello, this is long enough.'')"
    using n m example_isEmail
    by (simp add: contact_handler_rules [OF example_name example_email example_message])
  also have "\<dots> = respond 500 (Failure recipient_error) []"
    using u by (simp add: deliver_def)
  finally show ?thesis using u by (simp add: respond_def recipient_error_def)
qed

text \<open>
  Claim C7. For every request with valid fields, a configured recipient and a
  configured relay, when the send fails with an error the handler responds 500 with
  the message \<open>Failed to send message.\<close>, which does not depend on the error; the
  error is logged, and \<open>sendMail\<close> was called exactly once.
\<close>

theorem delivery_failure:
  assumes "sanitize (req_name req) = Inr n" "sanitize (req_email req) = Inr em"
    "sanitize (req_message req) = Inr m"
    and "2 \<le> length n" "isEmail (JStr em) = Inr True" "10 \<le> length m"
    and "\<not> unset (CONTACT_TO_EMAIL e)" "createTransporter e = Inr tr"
    and "send tr (compose_mail e req n em m (escaped_html req n em m)) = Some err"
  shows "contact_handler e send req =
           \<lparr>status = 500, body = Failure (lit ''Failed to send message.''),
            sent = [(tr, compose_mail e req n em m (escaped_html req n em m))],
            logged = [err]\<rparr>"
proof -
  have "contact_handler e send req = deliver e send req n em m"
    using assms(4-6) by (simp add: contact_handler_rules [OF assms(1-3)])
  also have "\<dots> = caught err [(tr, compose_mail e req n em m (escaped_html req n em m))]"
    by (simp only: deliver_sent [OF assms(7,8)] assms(9) option.case)
  finally show ?thesis by (simp only: caught_def)
qed

text \<open>
  The theorem at the example submission, with a relay that refuses the mail.
\<close>

theorem delivery_failure_witness:
  "contact_handler example_env (\<lambda>_ _. Some (SendError (lit ''550 relay refused''))) example_request =
     \<lparr>status = 500, body = Failure (lit ''Failed to send message.''),
      sent = [(example_transporter,
               compose_mail example_env example_request (lit ''Jo'') (lit ''jo@example.com'')
                 (lit ''Hello, this is long enough.'')
                 (escaped_html example_request (lit ''Jo'') (lit ''jo@example.com'')
                    (lit ''Hello, this is long enough.'')))],
      logged = [SendError (lit ''550 relay refused'')]\<rparr>"
proof -
  have n: "2 \<le> length (lit ''Jo'')" and m: "10 \<le> length (lit ''Hello, this is long enough.'')"
    by (simp_all add: lit_def)
  have s: "(\<lambda>_ _. Some (SendError (lit ''550 relay refused''))) example_transporter
      (compose_mail example_env example_request (lit ''Jo'') (lit ''jo@example.com'')
         (lit ''Hello, this is long enough.'')
         (escaped_html example_request (lit ''Jo'') (lit ''jo@example.com'')
            (lit ''Hello, this is long enough.''))) = Some (SendError (lit ''550 relay refused''))"
    by simp
  from delivery_failure [OF example_name example_email example_message n example_isEmail m
      example_recipient createTransporter_example s]
  show ?thesis .
qed

section \<open>Claims about the application setup\<close>




text \<open>
  Claim C9. The decision of the CORS middleware does not depend on \<open>ALLOWED_ORIGIN\<close>:
  two environments that differ only there allow the same origins, namely the origins
  that end in \<open>.netlify.app\<close>, \<open>http://localhost:5500\<close> and
  \<open>http://127.0.0.1:5500\<close>.
\<close>

theorem cors_ignores_ALLOWED_ORIGIN:
  "cors_allows (configure (e\<lparr>ALLOWED_ORIGIN := x\<rparr>)) origin = cors_allows (configure e) origin
   \<and> cors_allows (configure e) origin =
       (\<exists>s. origin = Some s
          \<and> (suffix (lit ''.netlify.app'') s
             \<or> s = lit ''http://localhost:5500'' \<or> s = lit ''http://127.0.0.1:5500''))"
  by (simp only: cors_allows_configure)

text \<open>
  The theorem with \<open>ALLOWED_ORIGIN\<close> set to \<open>https://example.com\<close>: the origin is in
  the parsed list and is not allowed, and an origin of Netlify is allowed.
\<close>

theorem cors_ignores_ALLOWED_ORIGIN_witness:
  "cfg_allowedOrigins (configure (example_env\<lparr>ALLOWED_ORIGIN := Some (lit ''https://example.com'')\<rparr>))
     = [lit ''https://example.com'']
   \<and> \<not> cors_allows (configure (example_env\<lparr>ALLOWED_ORIGIN := Some (lit ''https://example.com'')\<rparr>))
         (Some (lit ''https://example.com''))
   \<and> cors_allows (configure (example_env\<lparr>ALLOWED_ORIGIN := Some (lit ''https://example.com'')\<rparr>))
         (Some (lit ''https://caseclosed-ai.netlify.app''))"
proof -
  let ?e = "example_env\<lparr>ALLOWED_ORIGIN := Some (lit ''https://example.com'')\<rparr>"
  have sp: "split_on 0x2C (lit ''https://example.com'') = [lit ''https://example.com'']"
    by (rule split_on_plain) (simp add: lit_def)
  have tr: "trim (lit ''https://example.com'') = lit ''https://example.com''"
    by (rule trim_fixed) (simp_all add: lit_def is_space_def js_space_units_def)
  have ne: "lit ''https://example.com'' \<noteq> []" by (simp add: lit_def)
  have 1: "cfg_allowedOrigins (configure ?e) = [lit ''https://example.com'']"
    by (simp add: configure_def allowedOrigins_def unset_def ne sp tr)
  have "\<not> suffix (lit ''.netlify.app'') (lit ''https://example.com'')"
    by (simp add: suffix_def lit_def append_eq_append_conv2 append_eq_Cons_conv Cons_eq_append_conv)
  then have 2: "\<not> cors_allows (configure example_env) (Some (lit ''https://example.com''))"
    by (simp add: cors_allows_configure lit_def)
  have "lit ''https://caseclosed-ai.netlify.app'' = lit ''https://caseclosed-ai'' @ lit ''.netlify.app''"
    by (simp add: lit_def)
  then have "suffix (lit ''.netlify.app'') (lit ''https://caseclosed-ai.netlify.app'')"
    by (simp only: suffix_def) blast
  then have 3: "cors_allows (configure example_env) (Some (lit ''https://caseclosed-ai.netlify.app''))"
    by (simp add: cors_allows_configure)
  from cors_ignores_ALLOWED_ORIGIN [where e = example_env
      and x = "Some (lit ''https://example.com'')" and origin = "Some (lit ''https://example.com'')"]
    cors_ignores_ALLOWED_ORIGIN [where e = example_env
      and x = "Some (lit ''https://example.com'')"
      and origin = "Some (lit ''https://caseclosed-ai.netlify.app'')"] 1 2 3
  show ?thesis by blast
qed

end
